(* ===== verification/Go_Strings.thy ===== *)
theory Go_Strings
  imports Main "HOL-Library.Sublist"
begin

text \<open>
  The Go standard-library operations on strings that the exporter calls, on Go's own
  representation: a string is a list of bytes (HOL's \<open>char\<close> is an 8-bit value).

  \<^item> \<open>byte\<close>, \<open>rune_width\<close>, \<open>go_runes\<close>: the decoder of package \<open>unicode/utf8\<close>; an invalid byte is
    a rune of width 1, as \<open>DecodeRuneInString\<close> reports it;
  \<^item> \<open>valid_utf8\<close>: \<open>utf8.ValidString\<close>;
  \<^item> \<open>go_to_lower\<close>: \<open>strings.ToLower\<close>, as far as a comparison with ASCII text can see it;
  \<^item> \<open>go_split\<close>, \<open>go_join\<close>, \<open>go_replace_all\<close>, \<open>go_trim_space\<close>, \<open>dec_nat\<close>: \<open>strings.Split\<close> with a
    one-byte separator, \<open>strings.Join\<close>, \<open>strings.ReplaceAll\<close>, \<open>strings.TrimSpace\<close> and the \<open>%d\<close>
    verb of \<open>fmt\<close> on unsigned values.

  The collection \<open>go_string\<close> holds the facts that evaluate or normalise these operations.
\<close>

named_theorems go_string

section \<open>Bytes and runes\<close>

definition byte :: "char \<Rightarrow> nat" where
  "byte c = of_char c"

definition cont_byte :: "char \<Rightarrow> bool" where
  "cont_byte c \<longleftrightarrow> 128 \<le> byte c \<and> byte c \<le> 191"

text \<open>
  The width of the first rune. The bounds of the second byte (\<open>lo\<close>, \<open>hi\<close>) are the accept ranges
  of the decoder: they exclude overlong forms, surrogates and values above 0x10FFFF.
\<close>

definition rune_width3 :: "nat \<Rightarrow> string \<Rightarrow> nat" where
  "rune_width3 b cs =
     (case cs of
        c1 # c2 # _ \<Rightarrow>
          (if (if b = 224 then 160 else 128) \<le> byte c1 \<and>
              byte c1 \<le> (if b = 237 then 159 else 191) \<and> cont_byte c2 then 3 else 1)
      | _ \<Rightarrow> 1)"

definition rune_width4 :: "nat \<Rightarrow> string \<Rightarrow> nat" where
  "rune_width4 b cs =
     (case cs of
        c1 # c2 # c3 # _ \<Rightarrow>
          (if (if b = 240 then 144 else 128) \<le> byte c1 \<and>
              byte c1 \<le> (if b = 244 then 143 else 191) \<and> cont_byte c2 \<and> cont_byte c3
           then 4 else 1)
      | _ \<Rightarrow> 1)"

fun rune_width :: "string \<Rightarrow> nat" where
  "rune_width [] = 0"
| "rune_width (c # cs) =
     (let b = byte c in
      if b < 128 then 1
      else if 194 \<le> b \<and> b \<le> 223 then
        (case cs of c1 # _ \<Rightarrow> (if cont_byte c1 then 2 else 1) | [] \<Rightarrow> 1)
      else if 224 \<le> b \<and> b \<le> 239 then rune_width3 b cs
      else if 240 \<le> b \<and> b \<le> 244 then rune_width4 b cs
      else 1)"

lemma rune_width_pos: "0 < rune_width (c # cs)"
  by (auto simp: Let_def rune_width3_def rune_width4_def split: list.splits)

lemma rune_width_le: "rune_width s \<le> length s"
  by (cases s) (auto simp: Let_def rune_width3_def rune_width4_def split: list.splits)

function go_runes :: "string \<Rightarrow> string list" where
  "go_runes [] = []"
| "go_runes (c # cs) =
     take (rune_width (c # cs)) (c # cs) # go_runes (drop (rune_width (c # cs)) (c # cs))"
  by pat_completeness auto
termination
  by (relation "measure length") (use rune_width_pos in auto)

declare go_runes.simps(2) [simp del]

lemma concat_go_runes [simp]: "concat (go_runes s) = s"
  by (induction s rule: go_runes.induct) (simp_all add: go_runes.simps(2))

lemma go_runes_nonempty: "r \<in> set (go_runes s) \<Longrightarrow> r \<noteq> []"
proof (induction s rule: go_runes.induct)
  case 1
  then show ?case by simp
next
  case (2 c cs)
  then show ?case
    using rune_width_pos [of c cs] by (auto simp: go_runes.simps(2) simp del: rune_width.simps)
qed

lemma go_runes_eq_Nil [simp]: "go_runes s = [] \<longleftrightarrow> s = []"
  by (cases s) (simp_all add: go_runes.simps(2))

definition ascii :: "char \<Rightarrow> bool" where
  "ascii c \<longleftrightarrow> byte c < 128"

lemma rune_width_ascii: "ascii c \<Longrightarrow> rune_width (c # cs) = 1"
  by (simp add: ascii_def)

lemma go_runes_Cons_ascii: "ascii c \<Longrightarrow> go_runes (c # cs) = [c] # go_runes cs"
  by (simp add: go_runes.simps(2) rune_width_ascii del: rune_width.simps)

lemma go_runes_ascii: "list_all ascii s \<Longrightarrow> go_runes s = map (\<lambda>c. [c]) s"
  by (induction s) (simp_all add: go_runes_Cons_ascii)

definition valid_rune :: "string \<Rightarrow> bool" where
  "valid_rune r \<longleftrightarrow> 1 < length r \<or> list_all ascii r"

definition valid_utf8 :: "string \<Rightarrow> bool" where
  "valid_utf8 s \<longleftrightarrow> list_all valid_rune (go_runes s)"

lemma byte_numeral [go_string]: "byte (char_of n) = n mod 256"
  by (simp add: byte_def)

lemma valid_utf8_ascii: "list_all ascii s \<Longrightarrow> valid_utf8 s"
  by (simp add: valid_utf8_def go_runes_ascii valid_rune_def list_all_iff)

section \<open>Lower case\<close>

text \<open>
  Only two runes outside ASCII have an ASCII lower case: U+0130 (bytes C4 B0, lower case \<open>i\<close>) and
  the Kelvin sign U+212A (bytes E2 84 AA, lower case \<open>k\<close>). Every other non-ASCII rune has a
  non-ASCII image; the model leaves it as it is, which no comparison with ASCII text can tell
  apart, and the program compares lower-cased text with ASCII literals only.
\<close>

definition lower_byte :: "char \<Rightarrow> char" where
  "lower_byte c = (if 65 \<le> byte c \<and> byte c \<le> 90 then char_of (byte c + 32) else c)"

definition lower_rune :: "string \<Rightarrow> string" where
  "lower_rune r =
     (if length r = 1 then map lower_byte r
      else if r = [CHR 0xC4, CHR 0xB0] then ''i''
      else if r = [CHR 0xE2, CHR 0x84, CHR 0xAA] then ''k''
      else r)"

definition go_to_lower :: "string \<Rightarrow> string" where
  "go_to_lower s = concat (map lower_rune (go_runes s))"

lemma go_to_lower_Nil [simp]: "go_to_lower [] = []"
  by (simp add: go_to_lower_def)

lemma go_to_lower_Cons_ascii:
  "ascii c \<Longrightarrow> go_to_lower (c # cs) = lower_byte c # go_to_lower cs"
  by (simp add: go_to_lower_def go_runes_Cons_ascii lower_rune_def)

lemma go_to_lower_ascii: "list_all ascii s \<Longrightarrow> go_to_lower s = map lower_byte s"
  by (induction s) (simp_all add: go_to_lower_Cons_ascii)

section \<open>Split, join, replace, trim\<close>

fun go_split :: "char \<Rightarrow> string \<Rightarrow> string list" where
  "go_split sep [] = [[]]"
| "go_split sep (c # cs) =
     (if c = sep then [] # go_split sep cs
      else (c # hd (go_split sep cs)) # tl (go_split sep cs))"

fun go_join :: "string \<Rightarrow> string list \<Rightarrow> string" where
  "go_join sep [] = []"
| "go_join sep [x] = x"
| "go_join sep (x # y # ys) = x @ sep @ go_join sep (y # ys)"

lemma go_split_nonempty [simp]: "go_split sep s \<noteq> []"
  by (cases s) auto

lemma go_join_Cons: "xs \<noteq> [] \<Longrightarrow> go_join sep (x # xs) = x @ sep @ go_join sep xs"
  by (cases xs) auto

lemma go_join_split: "go_join [sep] (go_split sep s) = s"
proof (induction s)
  case Nil
  then show ?case by simp
next
  case (Cons c s)
  obtain p ps where ps: "go_split sep s = p # ps"
    by (meson go_split_nonempty list.exhaust)
  show ?case
  proof (cases "c = sep")
    case True
    with Cons show ?thesis by (simp add: go_join_Cons)
  next
    case False
    with Cons ps show ?thesis by (cases ps) auto
  qed
qed

lemma go_split_no_sep: "p \<in> set (go_split sep s) \<Longrightarrow> sep \<notin> set p"
proof (induction s arbitrary: p)
  case Nil
  then show ?case by simp
next
  case (Cons c s)
  obtain q qs where "go_split sep s = q # qs"
    by (meson go_split_nonempty list.exhaust)
  with Cons show ?case by (auto split: if_splits)
qed

lemma go_split_absent: "sep \<notin> set s \<Longrightarrow> go_split sep s = [s]"
  by (induction s) auto

lemma go_split_append_sep:
  "sep \<notin> set p \<Longrightarrow> go_split sep (p @ sep # s) = p # go_split sep s"
  by (induction p) auto

lemma go_split_join:
  "\<lbrakk>ps \<noteq> []; \<forall>p \<in> set ps. sep \<notin> set p\<rbrakk> \<Longrightarrow> go_split sep (go_join [sep] ps) = ps"
proof (induction ps)
  case Nil
  then show ?case by simp
next
  case (Cons p ps)
  then show ?case
    by (cases ps) (simp_all add: go_split_absent go_split_append_sep)
qed

text \<open>Replacing a non-empty \<open>old\<close>: leftmost, non-overlapping occurrences.\<close>

function go_replace_all :: "string \<Rightarrow> string \<Rightarrow> string \<Rightarrow> string" where
  "go_replace_all old new [] = []"
| "go_replace_all old new (c # cs) =
     (if old \<noteq> [] \<and> take (length old) (c # cs) = old
      then new @ go_replace_all old new (drop (length old) (c # cs))
      else c # go_replace_all old new cs)"
  by pat_completeness auto
termination
  by (relation "measure (\<lambda>(old, new, s). length s)") auto

lemma go_replace_all_absent:
  "\<not> sublist old s \<Longrightarrow> go_replace_all old new s = s"
proof (induction old new s rule: go_replace_all.induct)
  case (1 old new)
  then show ?case by simp
next
  case (2 old new c cs)
  have "take (length old) (c # cs) \<noteq> old"
    using "2.prems" by (metis append_take_drop_id sublist_appendI append_Nil)
  moreover have "\<not> sublist old cs"
    using "2.prems" by (metis sublist_Cons_right)
  ultimately show ?case using "2.IH"(2) by simp
qed

text \<open>The runes \<open>unicode.IsSpace\<close> accepts.\<close>

definition space_rune :: "string \<Rightarrow> bool" where
  "space_rune r \<longleftrightarrow>
     r \<in> set [[CHR 9], [CHR 10], [CHR 11], [CHR 12], [CHR 13], [CHR 32],
       [CHR 0xC2, CHR 0x85], [CHR 0xC2, CHR 0xA0], [CHR 0xE1, CHR 0x9A, CHR 0x80],
       [CHR 0xE2, CHR 0x80, CHR 0x80], [CHR 0xE2, CHR 0x80, CHR 0x81],
       [CHR 0xE2, CHR 0x80, CHR 0x82], [CHR 0xE2, CHR 0x80, CHR 0x83],
       [CHR 0xE2, CHR 0x80, CHR 0x84], [CHR 0xE2, CHR 0x80, CHR 0x85],
       [CHR 0xE2, CHR 0x80, CHR 0x86], [CHR 0xE2, CHR 0x80, CHR 0x87],
       [CHR 0xE2, CHR 0x80, CHR 0x88], [CHR 0xE2, CHR 0x80, CHR 0x89],
       [CHR 0xE2, CHR 0x80, CHR 0x8A], [CHR 0xE2, CHR 0x80, CHR 0xA8],
       [CHR 0xE2, CHR 0x80, CHR 0xA9], [CHR 0xE2, CHR 0x80, CHR 0xAF],
       [CHR 0xE2, CHR 0x81, CHR 0x9F], [CHR 0xE3, CHR 0x80, CHR 0x80]]"

definition go_trim_space :: "string \<Rightarrow> string" where
  "go_trim_space s =
     concat (rev (dropWhile space_rune (rev (dropWhile space_rune (go_runes s)))))"

section \<open>Decimal text\<close>

definition digit_char :: "nat \<Rightarrow> char" where
  "digit_char d = char_of (48 + d)"

fun dec_nat :: "nat \<Rightarrow> string" where
  "dec_nat n = (if n < 10 then [digit_char n] else dec_nat (n div 10) @ [digit_char (n mod 10)])"

declare dec_nat.simps [simp del]

lemma digit_chars [go_string]:
  "digit_char 0 = CHR ''0''" "digit_char (Suc 0) = CHR ''1''" "digit_char 1 = CHR ''1''"
  "digit_char 2 = CHR ''2''" "digit_char 3 = CHR ''3''" "digit_char 4 = CHR ''4''"
  "digit_char 5 = CHR ''5''" "digit_char 6 = CHR ''6''" "digit_char 7 = CHR ''7''"
  "digit_char 8 = CHR ''8''" "digit_char 9 = CHR ''9''"
  by code_simp+

lemma byte_digit_char: "d < 10 \<Longrightarrow> byte (digit_char d) = 48 + d"
  by (simp add: byte_def digit_char_def)

fun undec :: "nat \<Rightarrow> string \<Rightarrow> nat" where
  "undec n [] = n"
| "undec n (c # cs) = undec (10 * n + (byte c - 48)) cs"

lemma undec_append: "undec n (xs @ ys) = undec (undec n xs) ys"
  by (induction xs arbitrary: n) auto

lemma undec_dec_nat: "undec 0 (dec_nat n) = n"
proof (induction n rule: dec_nat.induct)
  case (1 n)
  show ?case
  proof (cases "n < 10")
    case True
    then show ?thesis by (simp add: dec_nat.simps [of n] byte_digit_char)
  next
    case False
    with 1 show ?thesis
      by (simp add: dec_nat.simps [of n] undec_append byte_digit_char)
  qed
qed

lemma dec_nat_inject [simp]: "dec_nat m = dec_nat n \<longleftrightarrow> m = n"
  by (metis undec_dec_nat)

lemma dec_nat_nonempty [simp]: "dec_nat n \<noteq> []"
  by (subst dec_nat.simps) simp

end
