(* ===== verification/Go_Float.thy ===== *)
theory Go_Float
  imports Complex_Main "HOL-Library.Log_Nat"
begin

text \<open>
  The \<open>float64\<close> values the exporter computes. A value is the rational number it denotes;
  \<open>f64_round\<close> is the rounding of IEEE 754 binary64 (53 significant bits, ties to even) on its
  normal range. The program converts 64-bit integers, divides such a value by \<open>1e9\<close> and adds two
  results of that kind: everything it computes is 0 or has a magnitude between \<open>10^-9\<close> and
  \<open>2^65\<close>, far inside the normal range, so neither overflow nor subnormal numbers can arise.
\<close>

type_synonym f64 = rat

text \<open>The exponent of the last place of the 53-bit significand of a positive rational.\<close>

definition f64_exp :: "rat \<Rightarrow> int" where
  "f64_exp x =
     (let (p, q) = quotient_of x in
      (if q \<le> p then bitlen (p div q) - 1 else - bitlen ((q - 1) div p)) - 52)"

definition round_half_even :: "rat \<Rightarrow> int" where
  "round_half_even y =
     (let f = \<lfloor>y\<rfloor>; d = y - of_int f in
      if d < 1 / 2 \<or> d = 1 / 2 \<and> even f then f else f + 1)"

definition f64_round :: "rat \<Rightarrow> f64" where
  "f64_round x =
     (if x = 0 then 0
      else let u = 2 powi f64_exp \<bar>x\<bar> in of_int (round_half_even (x / u)) * u)"

text \<open>Conversion of a Go integer, division and addition.\<close>

definition f64_of_int :: "int \<Rightarrow> f64" where
  "f64_of_int n = f64_round (of_int n)"

definition f64_div :: "f64 \<Rightarrow> f64 \<Rightarrow> f64" where
  "f64_div x y = f64_round (x / y)"

definition f64_add :: "f64 \<Rightarrow> f64 \<Rightarrow> f64" where
  "f64_add x y = f64_round (x + y)"

section \<open>The unit of the last place\<close>

lemma bitlen_powi:
  assumes "0 < n"
  shows "2 powi (bitlen n - 1) \<le> (of_int n :: rat)" and "(of_int n + 1 :: rat) \<le> 2 powi bitlen n"
proof -
  have b: "2 ^ nat (bitlen n - 1) \<le> n" "n + 1 \<le> 2 ^ nat (bitlen n)"
    using bitlen_bounds [OF assms] by simp_all
  have pos: "0 < bitlen n" using bitlen_nonneg [of n] b(2) assms by (cases "bitlen n = 0") auto
  have "(of_int (2 ^ nat (bitlen n - 1)) :: rat) \<le> of_int n"
    using b(1) by (simp only: of_int_le_iff)
  then show "2 powi (bitlen n - 1) \<le> (of_int n :: rat)"
    using pos by (simp add: power_int_def)
  have "(of_int (n + 1) :: rat) \<le> of_int (2 ^ nat (bitlen n))"
    using b(2) by (simp only: of_int_le_iff)
  then show "(of_int n + 1 :: rat) \<le> 2 powi bitlen n"
    using pos by (simp add: power_int_def)
qed

lemma div_bracket:
  assumes "0 < (q :: int)"
  shows "p div q * q \<le> p" and "p < (p div q + 1) * q"
proof -
  have "p = p div q * q + p mod q" by simp
  with pos_mod_bound [OF assms, of p] pos_mod_sign [OF assms, of p]
  show "p div q * q \<le> p" and "p < (p div q + 1) * q"
    by (simp_all only: distrib_right)
qed

lemma f64_exp_bounds:
  assumes "0 < x"
  shows "2 powi (f64_exp x + 52) \<le> x" and "x < 2 powi (f64_exp x + 53)"
proof -
  obtain p q where pq: "quotient_of x = (p, q)" by fastforce
  then have q: "0 < q" and x: "x = of_int p / of_int q"
    by (auto simp: quotient_of_denom_pos dest: quotient_of_div)
  have p: "0 < p" using assms q x by (simp add: zero_less_divide_iff)
  have qr: "0 < (of_int q :: rat)" and pr: "0 < (of_int p :: rat)" using p q by simp_all
  have "2 powi (f64_exp x + 52) \<le> x \<and> x < 2 powi (f64_exp x + 53)"
  proof (cases "q \<le> p")
    case True
    define m where "m = p div q"
    have "0 < m" using True q by (simp add: m_def pos_imp_zdiv_pos_iff)
    note b = bitlen_powi [OF this]
    have e: "f64_exp x + 52 = bitlen m - 1" "f64_exp x + 53 = bitlen m"
      using True by (simp_all add: f64_exp_def pq m_def)
    have "m * q \<le> p" "p < (m + 1) * q"
      using div_bracket [OF q, of p] by (simp_all add: m_def)
    then have "(of_int (m * q) :: rat) \<le> of_int p" "(of_int p :: rat) < of_int ((m + 1) * q)"
      by (simp_all only: of_int_le_iff of_int_less_iff)
    then have "of_int m \<le> x" "x < of_int m + 1"
      using qr by (simp_all add: x field_simps)
    with b show ?thesis by (simp add: e)
  next
    case False
    define m where "m = (q - 1) div p"
    have "0 < m" using False p by (simp add: m_def pos_imp_zdiv_pos_iff)
    note b = bitlen_powi [OF this]
    have e: "f64_exp x + 52 = - bitlen m" "f64_exp x + 53 = - (bitlen m - 1)"
      using False by (simp_all add: f64_exp_def pq m_def)
    have "m * p < q" "q \<le> (m + 1) * p"
      using div_bracket [OF p, of "q - 1"] by (simp_all add: m_def)
    then have "(of_int (m * p) :: rat) < of_int q" "(of_int q :: rat) \<le> of_int ((m + 1) * p)"
      by (simp_all only: of_int_le_iff of_int_less_iff)
    then have mq: "of_int m * of_int p < (of_int q :: rat)"
      and qm: "of_int q \<le> (of_int m + 1) * (of_int p :: rat)" by simp_all
    have "2 powi (bitlen m - 1) * of_int p < (of_int q :: rat)"
      using mult_right_mono [OF b(1), of "of_int p"] pr mq by linarith
    then have "x < inverse (2 powi (bitlen m - 1))"
      using qr pr by (simp add: x field_simps)
    moreover have "of_int q \<le> 2 powi bitlen m * (of_int p :: rat)"
      using mult_right_mono [OF b(2), of "of_int p"] pr qm by linarith
    then have "inverse (2 powi bitlen m) \<le> x"
      using qr pr by (simp add: x field_simps)
    ultimately show ?thesis
      by (simp only: e power_int_minus)
  qed
  then show "2 powi (f64_exp x + 52) \<le> x" and "x < 2 powi (f64_exp x + 53)" by simp_all
qed

section \<open>Rounding: exactness and error bound\<close>

lemma round_half_even_of_int [simp]: "round_half_even (of_int n) = n"
  by (simp add: round_half_even_def)

lemma round_half_even_error: "\<bar>of_int (round_half_even y) - y\<bar> \<le> 1 / 2"
  unfolding round_half_even_def Let_def
  using floor_correct [of y] by (auto simp: abs_if) linarith+

lemma f64_round_0 [simp]: "f64_round 0 = 0"
  by (simp add: f64_round_def)

text \<open>Rounding is wrong by at most half a unit in the last place, \<open>2^-53\<close> of the value.\<close>

lemma f64_round_error: "\<bar>f64_round x - x\<bar> \<le> \<bar>x\<bar> / 2 ^ 53"
proof (cases "x = 0")
  case False
  define u :: rat where "u = 2 powi f64_exp \<bar>x\<bar>"
  have u: "0 < u" by (simp add: u_def)
  have "2 powi (f64_exp \<bar>x\<bar> + 52) \<le> \<bar>x\<bar>" using False by (intro f64_exp_bounds) simp
  then have ux: "u * 2 ^ 52 \<le> \<bar>x\<bar>" by (simp add: u_def power_int_add)
  have "f64_round x - x = (of_int (round_half_even (x / u)) - x / u) * u"
    using False u by (simp add: f64_round_def u_def [symmetric] left_diff_distrib)
  then have "\<bar>f64_round x - x\<bar> = \<bar>of_int (round_half_even (x / u)) - x / u\<bar> * u"
    using u by (simp add: abs_mult)
  also have "\<dots> \<le> 1 / 2 * u"
    using u round_half_even_error by (intro mult_right_mono) auto
  also have "\<dots> \<le> \<bar>x\<bar> / 2 ^ 53" using ux by simp
  finally show ?thesis .
qed simp

text \<open>A multiple of the unit of its last place is not changed.\<close>

lemma f64_round_exact:
  assumes "x = of_int m * 2 powi f64_exp \<bar>x\<bar>"
  shows "f64_round x = x"
proof (cases "x = 0")
  case False
  have "x / 2 powi f64_exp \<bar>x\<bar> = of_int m"
    by (subst (1) assms) simp
  with False assms show ?thesis by (simp add: f64_round_def)
qed simp

lemma f64_of_int_exact:
  assumes "\<bar>n\<bar> \<le> 2 ^ 53"
  shows "f64_of_int n = of_int n"
proof (cases "n = 0")
  case False
  let ?e = "f64_exp \<bar>of_int n\<bar>"
  show ?thesis
  proof (cases "?e \<le> 0")
    case True
    then have "(2 :: rat) powi ?e * 2 powi (- ?e) = 1"
      by (simp add: power_int_minus)
    moreover have "(2 :: rat) powi (- ?e) = of_int (2 ^ nat (- ?e))"
      using True by (simp add: power_int_def)
    ultimately have "(of_int n :: rat) = of_int (n * 2 ^ nat (- ?e)) * 2 powi ?e"
      by (simp add: algebra_simps)
    then show ?thesis unfolding f64_of_int_def by (rule f64_round_exact)
  next
    case gt: False
    have "2 powi (?e + 52) \<le> \<bar>of_int n :: rat\<bar>"
      using False by (intro f64_exp_bounds) simp
    moreover have "(2 :: rat) powi 53 \<le> 2 powi (?e + 52)"
      using gt by (intro power_int_increasing) auto
    moreover have "\<bar>of_int n :: rat\<bar> \<le> 2 ^ 53"
      using assms by (metis of_int_abs of_int_le_iff of_int_numeral of_int_power)
    ultimately have eq: "2 powi (?e + 52) = (2 :: rat) powi 53" "\<bar>of_int n :: rat\<bar> = 2 ^ 53" by auto
    have "?e + 52 = 53"
    proof (rule ccontr)
      assume "?e + 52 \<noteq> 53"
      then have "(2 :: rat) powi 53 < 2 powi (?e + 52)"
        using gt by (intro power_int_strict_increasing) auto
      with eq(1) show False by simp
    qed
    then have "?e = 1" by simp
    moreover have "\<bar>n\<bar> = 2 ^ 53"
      using eq(2) by (metis of_int_abs of_int_eq_iff of_int_numeral of_int_power)
    then have "even \<bar>n\<bar>" by simp
    then obtain m where "n = m * 2" by (metis dvd_abs_iff dvdE mult.commute)
    ultimately show ?thesis
      unfolding f64_of_int_def by (intro f64_round_exact [of _ m]) simp
  qed
qed (simp add: f64_of_int_def)

text \<open>Two roundings with a division in between.\<close>

lemma two_roundings:
  fixes a n r :: rat
  assumes "\<bar>a - n\<bar> \<le> n / 2 ^ 53" and "\<bar>r - a / 10 ^ 9\<bar> \<le> \<bar>a / 10 ^ 9\<bar> / 2 ^ 53" and "0 \<le> n"
  shows "\<bar>r - n / 10 ^ 9\<bar> \<le> 3 * (n / 10 ^ 9) / 2 ^ 53"
proof -
  have "n / 2 ^ 53 \<le> n" using assms(3) by (simp add: field_simps)
  then have "\<bar>a\<bar> \<le> 2 * n" using assms(1,3) by linarith
  then have "\<bar>a / 10 ^ 9\<bar> / 2 ^ 53 \<le> 2 * ((n / 10 ^ 9) / 2 ^ 53)" by simp
  moreover have "\<bar>a / 10 ^ 9 - n / 10 ^ 9\<bar> \<le> (n / 10 ^ 9) / 2 ^ 53"
    using assms(1) by (simp add: diff_divide_distrib [symmetric] divide_right_mono)
  ultimately have "\<bar>r - n / 10 ^ 9\<bar> \<le> 3 * ((n / 10 ^ 9) / 2 ^ 53)"
    using assms(2) by linarith
  then show ?thesis by simp
qed

end
