(* ===== verification/Go_Runtime.thy ===== *)
theory Go_Runtime
  imports Go_Strings Go_Float "HOL-Library.Word"
begin

text \<open>
  What a Go function can do besides returning a value, as values: return an error
  (\<open>go_error\<close>) or panic (\<open>go_panic\<close>). A function that can do both has a result of type
  \<open>'a outcome\<close>; one that returns \<open>(T, error)\<close> and cannot panic has type \<open>go_error + T\<close>, with
  \<open>Inl\<close> for a non-nil error. A Go map that is only ranged over is an association list in the
  order the iteration happens to take (\<open>go_map\<close>): statements about it hold for every order.

  The collection \<open>outcome\<close> holds the case rules of \<open>bind_outcome\<close>.
\<close>

named_theorems outcome

datatype metric_err =
    InvalidMetricName string
  | InvalidLabelName string string
  | DuplicateLabelNames string
  | InconsistentCardinality nat nat
  | LabelValueNotUtf8 string

datatype go_error =
    ErrNoData
  | ErrDeadline
  | EngineError string
  | FlagError string
  | NumError string
  | RegisterError string
  | LogLevelError string
  | WrappedError string go_error

datatype go_panic =
    NilPointerDereference
  | NilMapAssignment
  | IndexOutOfRange nat nat
  | PanicMetricErr metric_err
  | NonPositiveTickerInterval
  | HttpPatternConflict string
  | PanicError go_error

datatype 'a outcome = Ok 'a | Err go_error | Panic go_panic

fun bind_outcome :: "'a outcome \<Rightarrow> ('a \<Rightarrow> 'b outcome) \<Rightarrow> 'b outcome" where
  "bind_outcome (Ok x) f = f x"
| "bind_outcome (Err e) f = Err e"
| "bind_outcome (Panic p) f = Panic p"

lemma bind_outcome_Ok_iff [outcome]:
  "bind_outcome r f = Ok y \<longleftrightarrow> (\<exists>x. r = Ok x \<and> f x = Ok y)"
  by (cases r) auto

lemma bind_outcome_Panic_iff [outcome]:
  "bind_outcome r f = Panic p \<longleftrightarrow> r = Panic p \<or> (\<exists>x. r = Ok x \<and> f x = Panic p)"
  by (cases r) auto

lemma bind_outcome_Err_iff [outcome]:
  "bind_outcome r f = Err e \<longleftrightarrow> r = Err e \<or> (\<exists>x. r = Ok x \<and> f x = Err e)"
  by (cases r) auto

text \<open>A loop that runs \<open>f\<close> on every element and appends the results, stopping at a panic.\<close>

fun traverse :: "('a \<Rightarrow> 'b outcome) \<Rightarrow> 'a list \<Rightarrow> 'b list outcome" where
  "traverse f [] = Ok []"
| "traverse f (x # xs) =
     bind_outcome (f x) (\<lambda>y. bind_outcome (traverse f xs) (\<lambda>ys. Ok (y # ys)))"

lemma traverse_Ok_iff [outcome]:
  "traverse f xs = Ok ys \<longleftrightarrow> list_all2 (\<lambda>x y. f x = Ok y) xs ys"
  by (induction xs arbitrary: ys) (auto simp: outcome list_all2_Cons1)

lemma traverse_all_Ok: "\<forall>x \<in> set xs. f x = Ok (g x) \<Longrightarrow> traverse f xs = Ok (map g xs)"
  by (induction xs) auto

lemma traverse_no_Err: "\<forall>x \<in> set xs. \<forall>e. f x \<noteq> Err e \<Longrightarrow> traverse f xs \<noteq> Err e"
  by (induction xs) (auto simp: outcome)

lemma traverse_Panic:
  assumes "\<forall>x \<in> set xs. \<forall>e. f x \<noteq> Err e"
  shows "(\<exists>p. traverse f xs = Panic p) \<longleftrightarrow> (\<exists>x \<in> set xs. \<exists>p. f x = Panic p)"
  using assms
proof (induction xs)
  case (Cons x xs)
  then show ?case
    using traverse_no_Err [of xs f]
    by (cases "f x"; cases "traverse f xs") auto
qed simp

text \<open>When every element either succeeds or raises the same panic, so does the loop.\<close>

lemma traverse_uniform:
  "(\<And>x. f x = (if P x then Ok (g x) else Panic p)) \<Longrightarrow>
     traverse f xs = (if list_all P xs then Ok (map g xs) else Panic p)"
  by (induction xs) auto

type_synonym go_map = "(string \<times> string) list"

text \<open>\<open>errors.Is\<close>: the error itself or one it wraps.\<close>

fun error_is :: "go_error \<Rightarrow> go_error \<Rightarrow> bool" where
  "error_is (WrappedError m e) t \<longleftrightarrow> WrappedError m e = t \<or> error_is e t"
| "error_is e t \<longleftrightarrow> e = t"

type_synonym int64 = "64 word"
type_synonym uint64 = "64 word"
type_synonym uint16 = "16 word"

text \<open>\<open>float64\<close> of a signed and of an unsigned 64-bit integer.\<close>

definition f64_of_int64 :: "int64 \<Rightarrow> f64" where
  "f64_of_int64 w = f64_of_int (sint w)"

definition f64_of_uint64 :: "uint64 \<Rightarrow> f64" where
  "f64_of_uint64 w = f64_of_int (uint w)"

end
