(* ===== verification/Prom_Client.thy ===== *)
theory Prom_Client
  imports Go_Runtime "HOL-Library.List_Lexorder" "HOL-Library.Char_ord" "HOL-Library.Multiset"
begin

text \<open>
  The part of the vendored Prometheus client that turns descriptors, values and label values into
  metrics (\<open>prometheus/desc.go\<close>, \<open>labels.go\<close>, \<open>value.go\<close>, \<open>metric.go\<close>). Every descriptor of the
  exporter is built with nil constant labels, so a descriptor is its name, its help text, its
  variable labels and the error \<open>NewDesc\<close> recorded; the hashes \<open>id\<close> and \<open>dimHash\<close> are functions
  of these. Comparison of strings is bytewise lexicographic, as in Go.

  The lemmas give the exact condition under which \<open>NewConstMetric\<close> succeeds, which is what
  decides whether a scrape of the exporter panics.
\<close>

lemma filter_eq_Cons_in: "filter P xs = y # ys \<Longrightarrow> y \<in> set xs \<and> P y"
  using filter_eq_ConsD [of P xs y ys] by auto

section \<open>Descriptors\<close>

datatype value_type = CounterValue | GaugeValue | UntypedValue

record desc =
  fqName :: string
  desc_help :: string
  variableLabels :: "string list"
  desc_err :: "metric_err option"

definition BuildFQName :: "string \<Rightarrow> string \<Rightarrow> string \<Rightarrow> string" where
  "BuildFQName namespace subsystem name =
     (if name = [] then []
      else (if namespace \<noteq> [] then namespace @ ''_'' else [])
         @ (if subsystem \<noteq> [] then subsystem @ ''_'' else []) @ name)"

definition IsValidMetricName :: "string \<Rightarrow> bool" where
  "IsValidMetricName s \<longleftrightarrow> s \<noteq> [] \<and> valid_utf8 s"

definition IsValidLabelName :: "string \<Rightarrow> bool" where
  "IsValidLabelName s \<longleftrightarrow> s \<noteq> [] \<and> valid_utf8 s"

definition checkLabelName :: "string \<Rightarrow> bool" where
  "checkLabelName l \<longleftrightarrow> IsValidLabelName l \<and> take 2 l \<noteq> ''__''"

definition NewDesc_err :: "string \<Rightarrow> string list \<Rightarrow> metric_err option" where
  "NewDesc_err fq labels =
     (if \<not> IsValidMetricName fq then Some (InvalidMetricName fq)
      else case filter (\<lambda>l. \<not> checkLabelName l) labels of
        l # _ \<Rightarrow> Some (InvalidLabelName l fq)
      | [] \<Rightarrow> if distinct labels then None else Some (DuplicateLabelNames fq))"

definition NewDesc :: "string \<Rightarrow> string \<Rightarrow> string list \<Rightarrow> desc" where
  "NewDesc fq help labels =
     \<lparr>fqName = fq, desc_help = help, variableLabels = labels, desc_err = NewDesc_err fq labels\<rparr>"

lemma NewDesc_sel [simp]:
  "fqName (NewDesc fq h ls) = fq" "desc_help (NewDesc fq h ls) = h"
  "variableLabels (NewDesc fq h ls) = ls" "desc_err (NewDesc fq h ls) = NewDesc_err fq ls"
  by (simp_all add: NewDesc_def)

text \<open>The label names a descriptor accepts.\<close>

definition label_names_ok :: "string list \<Rightarrow> bool" where
  "label_names_ok ls \<longleftrightarrow> list_all checkLabelName ls \<and> distinct ls"

lemma NewDesc_err_None_iff:
  "NewDesc_err fq ls = None \<longleftrightarrow> IsValidMetricName fq \<and> label_names_ok ls"
  by (auto simp: NewDesc_err_def label_names_ok_def list_all_iff filter_empty_conv
      split: list.splits if_splits dest!: filter_eq_Cons_in)

section \<open>Constant metrics\<close>

record metric =
  metric_desc :: desc
  metric_type :: value_type
  metric_value :: f64
  metric_labels :: "(string \<times> string) list"

definition validateLabelValues :: "string list \<Rightarrow> nat \<Rightarrow> metric_err option" where
  "validateLabelValues vals n =
     (if length vals \<noteq> n then Some (InconsistentCardinality n (length vals))
      else case filter (\<lambda>v. \<not> valid_utf8 v) vals of
        v # _ \<Rightarrow> Some (LabelValueNotUtf8 v)
      | [] \<Rightarrow> None)"

definition MakeLabelPairs :: "desc \<Rightarrow> string list \<Rightarrow> (string \<times> string) list" where
  "MakeLabelPairs d vals = sort_key fst (zip (variableLabels d) vals)"

definition NewConstMetric ::
  "desc \<Rightarrow> value_type \<Rightarrow> f64 \<Rightarrow> string list \<Rightarrow> metric_err + metric" where
  "NewConstMetric d t v vals =
     (case desc_err d of
        Some e \<Rightarrow> Inl e
      | None \<Rightarrow>
          (case validateLabelValues vals (length (variableLabels d)) of
             Some e \<Rightarrow> Inl e
           | None \<Rightarrow> Inr \<lparr>metric_desc = d, metric_type = t, metric_value = v,
                          metric_labels = MakeLabelPairs d vals\<rparr>))"

text \<open>\<open>MustNewConstMetric\<close> dereferences its descriptor and panics on any error.\<close>

definition MustNewConstMetric ::
  "desc option \<Rightarrow> value_type \<Rightarrow> f64 \<Rightarrow> string list \<Rightarrow> metric outcome" where
  "MustNewConstMetric od t v vals =
     (case od of
        None \<Rightarrow> Panic NilPointerDereference
      | Some d \<Rightarrow>
          (case NewConstMetric d t v vals of
             Inl e \<Rightarrow> Panic (PanicMetricErr e)
           | Inr m \<Rightarrow> Ok m))"

definition values_ok :: "string list \<Rightarrow> bool" where
  "values_ok vs \<longleftrightarrow> list_all valid_utf8 vs"

lemma validateLabelValues_None_iff:
  "validateLabelValues vs n = None \<longleftrightarrow> length vs = n \<and> values_ok vs"
  by (auto simp: validateLabelValues_def values_ok_def list_all_iff filter_empty_conv
      split: list.splits dest!: filter_eq_Cons_in)

text \<open>The metric a successful call builds, and the exact condition of success.\<close>

definition const_metric :: "desc \<Rightarrow> value_type \<Rightarrow> f64 \<Rightarrow> string list \<Rightarrow> metric" where
  "const_metric d t v vals =
     \<lparr>metric_desc = d, metric_type = t, metric_value = v, metric_labels = MakeLabelPairs d vals\<rparr>"

definition send_ok :: "desc \<Rightarrow> string list \<Rightarrow> bool" where
  "send_ok d vals \<longleftrightarrow>
     desc_err d = None \<and> length vals = length (variableLabels d) \<and> values_ok vals"

lemma MustNewConstMetric_ok:
  "send_ok d vals \<Longrightarrow> MustNewConstMetric (Some d) t v vals = Ok (const_metric d t v vals)"
  by (simp add: MustNewConstMetric_def NewConstMetric_def const_metric_def send_ok_def
      validateLabelValues_None_iff [THEN iffD2])

lemma MustNewConstMetric_panics:
  "\<not> send_ok d vals \<Longrightarrow>
     \<exists>e. MustNewConstMetric (Some d) t v vals = Panic (PanicMetricErr e)"
  using validateLabelValues_None_iff [of vals "length (variableLabels d)"]
  by (auto simp: MustNewConstMetric_def NewConstMetric_def send_ok_def split: option.splits)

lemma send_ok_NewDesc:
  "send_ok (NewDesc fq h ls) vs \<longleftrightarrow>
     IsValidMetricName fq \<and> label_names_ok ls \<and> length vs = length ls \<and> values_ok vs"
  by (auto simp: send_ok_def NewDesc_err_None_iff)

lemma set_metric_labels: "set (MakeLabelPairs d vs) = set (zip (variableLabels d) vs)"
  by (simp add: MakeLabelPairs_def)

text \<open>
  Label pairs are sorted by name, so they do not depend on the order in which the label names
  were listed: two listings that pair the same names with the same values give the same pairs.
\<close>

lemma MakeLabelPairs_perm:
  assumes "mset (zip (variableLabels d) vs) = mset (zip (variableLabels d') vs')"
    and "distinct (map fst (zip (variableLabels d) vs))"
  shows "MakeLabelPairs d vs = MakeLabelPairs d' vs'"
proof -
  have "inj_on fst (set (zip (variableLabels d) vs))"
    using assms(2) by (simp add: distinct_map)
  then show ?thesis
    unfolding MakeLabelPairs_def by (intro sort_key_inj_key_eq) (simp_all add: assms(1))
qed

end
