(* ===== verification/Coll_Labels.thy ===== *)
theory Coll_Labels
  imports Prom_Client
begin

text \<open>
  Labels of the collectors (\<open>collector/utils.go\<close> and the three copies of
  \<open>getExtraLabelsAndValues\<close>). The package variables that \<open>RegisterVariableLabels\<close> sets are the
  record \<open>label_vars\<close>; \<open>collectorSync\<close> is the flag of the \<open>sync.Once\<close>. The lemmas describe
  \<open>sanitizeLabelName\<close> and say exactly when the label list built for a container, pod or image is
  one a descriptor accepts; the locale \<open>label_scheme\<close> states what the three kinds of object have
  in common.
\<close>

section \<open>The default labels\<close>

definition labelName :: string where [simp]: "labelName = ''name''"
definition labelID :: string where [simp]: "labelID = ''id''"
definition labelImage :: string where [simp]: "labelImage = ''image''"
definition labelImageID :: string where [simp]: "labelImageID = ''image_id''"
definition labelPorts :: string where [simp]: "labelPorts = ''ports''"
definition labelPodID :: string where [simp]: "labelPodID = ''pod_id''"
definition labelPodName :: string where [simp]: "labelPodName = ''pod_name''"
definition labelDriver :: string where [simp]: "labelDriver = ''driver''"
definition labelInterface :: string where [simp]: "labelInterface = ''interface''"
definition labelLabels :: string where [simp]: "labelLabels = ''labels''"
definition labelInfraID :: string where [simp]: "labelInfraID = ''infra_id''"
definition labelParentID :: string where [simp]: "labelParentID = ''parent_id''"
definition labelRepository :: string where [simp]: "labelRepository = ''repository''"
definition labelTag :: string where [simp]: "labelTag = ''tag''"
definition labelDigest :: string where [simp]: "labelDigest = ''digest''"
definition labelMountPoint :: string where [simp]: "labelMountPoint = ''mount_point''"
definition labelVersion :: string where [simp]: "labelVersion = ''version''"

definition containerDefaultLabels :: "string list" where
  "containerDefaultLabels =
     [labelID, labelName, labelImage, labelImageID, labelPorts, labelPodID, labelPodName]"

definition podDefaultLabels :: "string list" where
  "podDefaultLabels = [labelID]"

definition podDescDefaultLabels :: "string list" where
  "podDescDefaultLabels = [labelID, labelName, labelInfraID]"

definition networkDefaultLabels :: "string list" where
  "networkDefaultLabels = [labelName, labelID, labelDriver, labelInterface, labelLabels]"

definition imageDefaultLabels :: "string list" where
  "imageDefaultLabels = [labelID, labelRepository, labelTag]"

definition imageDescDefaultLabels :: "string list" where
  "imageDescDefaultLabels = [labelID, labelParentID, labelRepository, labelTag, labelDigest]"

definition volumeDefaultLabels :: "string list" where
  "volumeDefaultLabels = [labelName, labelDriver, labelMountPoint]"

definition systemDefaultLabels :: "string list" where
  "systemDefaultLabels = [labelVersion]"

section \<open>Registration of the label options\<close>

record label_vars =
  collectorSync :: bool
  storeLabels :: bool
  enhanceAllMetrics :: bool
  whitelistedLabels :: "string list"

text \<open>The zero values of the package variables.\<close>

definition initial_label_vars :: label_vars where
  "initial_label_vars =
     \<lparr>collectorSync = False, storeLabels = False, enhanceAllMetrics = False,
      whitelistedLabels = []\<rparr>"

definition RegisterVariableLabels ::
  "bool \<Rightarrow> string \<Rightarrow> bool \<Rightarrow> label_vars \<Rightarrow> label_vars" where
  "RegisterVariableLabels storeLabel whiteListed enhanceMetrics v =
     (if collectorSync v then v
      else v\<lparr>collectorSync := True, storeLabels := storeLabel,
             whitelistedLabels := go_split CHR '','' whiteListed,
             enhanceAllMetrics := enhanceMetrics\<rparr>)"

section \<open>Label names\<close>

definition name_char :: "char \<Rightarrow> bool" where
  "name_char c \<longleftrightarrow>
     97 \<le> byte c \<and> byte c \<le> 122 \<or> 65 \<le> byte c \<and> byte c \<le> 90 \<or>
     48 \<le> byte c \<and> byte c \<le> 57 \<or> byte c = 95"

definition sanitize_rune :: "string \<Rightarrow> string" where
  "sanitize_rune r = (if list_all name_char r then r else ''_'')"

text \<open>The regular expression \<open>[^a-zA-Z0-9_]\<close> matches one rune, so each other rune becomes \<open>_\<close>.\<close>

definition sanitizeLabelName :: "string \<Rightarrow> string" where
  "sanitizeLabelName name = concat (map sanitize_rune (go_runes name))"

definition whitelistContains :: "label_vars \<Rightarrow> string \<Rightarrow> bool" where
  "whitelistContains v text \<longleftrightarrow> text \<in> set (whitelistedLabels v)"

definition slicesContains :: "string list \<Rightarrow> string \<Rightarrow> bool" where
  "slicesContains list value \<longleftrightarrow> go_to_lower value \<in> set list"

text \<open>The loop over the labels of a container, pod or image.\<close>

fun getExtraLabelsAndValues ::
  "label_vars \<Rightarrow> string list \<Rightarrow> go_map \<Rightarrow> string list \<times> string list" where
  "getExtraLabelsAndValues v collectorLabels [] = ([], [])"
| "getExtraLabelsAndValues v collectorLabels ((label, value) # rest) =
     (let (extraLabels, extraValues) = getExtraLabelsAndValues v collectorLabels rest in
      if slicesContains collectorLabels label then (extraLabels, extraValues)
      else let validLabel = sanitizeLabelName label in
        if storeLabels v then (validLabel # extraLabels, value # extraValues)
        else if whitelistContains v label then (validLabel # extraLabels, value # extraValues)
        else (extraLabels, extraValues))"

text \<open>The labels the loop keeps.\<close>

definition keeps_label :: "label_vars \<Rightarrow> string list \<Rightarrow> string \<Rightarrow> bool" where
  "keeps_label v defaults label \<longleftrightarrow>
     \<not> slicesContains defaults label \<and> (storeLabels v \<or> whitelistContains v label)"

definition kept :: "label_vars \<Rightarrow> string list \<Rightarrow> go_map \<Rightarrow> go_map" where
  "kept v defaults ls = filter (\<lambda>(label, _). keeps_label v defaults label) ls"

lemma getExtraLabelsAndValues_eq:
  "getExtraLabelsAndValues v d ls =
     (map (\<lambda>(label, _). sanitizeLabelName label) (kept v d ls), map snd (kept v d ls))"
  by (induction v d ls rule: getExtraLabelsAndValues.induct)
     (auto simp: Let_def kept_def keeps_label_def split: prod.splits)

section \<open>Sanitized names\<close>

lemma name_char_ascii: "name_char c \<Longrightarrow> ascii c"
  by (auto simp: name_char_def ascii_def)

lemma name_char_underscore: "name_char CHR ''_''"
  by code_simp

lemma sanitize_rune_name_char: "list_all name_char (sanitize_rune r)"
  using name_char_underscore by (simp add: sanitize_rune_def)

lemma sanitizeLabelName_chars: "list_all name_char (sanitizeLabelName s)"
  using sanitize_rune_name_char by (auto simp: sanitizeLabelName_def list_all_iff)

lemma sanitizeLabelName_ascii: "list_all ascii (sanitizeLabelName s)"
  using sanitizeLabelName_chars name_char_ascii by (auto simp: list_all_iff)

lemma sanitizeLabelName_valid_utf8: "valid_utf8 (sanitizeLabelName s)"
  by (intro valid_utf8_ascii sanitizeLabelName_ascii)

lemma sanitizeLabelName_id: "list_all name_char s \<Longrightarrow> sanitizeLabelName s = s"
proof -
  assume s: "list_all name_char s"
  then have "list_all ascii s" by (auto simp: list_all_iff name_char_ascii)
  then have "sanitizeLabelName s = concat (map (sanitize_rune \<circ> (\<lambda>c. [c])) s)"
    by (simp add: sanitizeLabelName_def go_runes_ascii)
  also have "\<dots> = concat (map (\<lambda>c. [c]) s)"
    using s by (intro arg_cong [of _ _ concat] map_cong) (auto simp: sanitize_rune_def list_all_iff)
  finally show ?thesis by simp
qed

text \<open>A rune of more than one byte has no name character, so every rune yields one character.\<close>

lemma go_runes_long_not_ascii:
  "r \<in> set (go_runes s) \<Longrightarrow> 1 < length r \<Longrightarrow> \<not> ascii (hd r)"
proof (induction s rule: go_runes.induct)
  case 1
  then show ?case by simp
next
  case (2 c cs)
  show ?case
  proof (cases "ascii c")
    case True
    with 2 show ?thesis
      by (auto simp: go_runes.simps(2) rune_width_ascii simp del: rune_width.simps)
  next
    case False
    with 2 rune_width_pos [of c cs] show ?thesis
      by (auto simp: go_runes.simps(2) hd_take simp del: rune_width.simps)
  qed
qed

lemma length_sanitize_rune: "r \<in> set (go_runes s) \<Longrightarrow> length (sanitize_rune r) = 1"
  using go_runes_nonempty [of r s] go_runes_long_not_ascii [of r s] name_char_ascii
  by (cases r) (force simp: sanitize_rune_def)+

lemma length_sanitizeLabelName: "length (sanitizeLabelName s) = length (go_runes s)"
proof -
  have "length (sanitizeLabelName s) = sum_list (map (\<lambda>r. 1) (go_runes s))"
    unfolding sanitizeLabelName_def length_concat map_map comp_def
    by (intro arg_cong [of _ _ sum_list] map_cong refl) (rule length_sanitize_rune)
  then show ?thesis by (simp add: sum_list_triv)
qed

lemma sanitizeLabelName_eq_Nil: "sanitizeLabelName s = [] \<longleftrightarrow> s = []"
  using length_sanitizeLabelName [of s] by (metis go_runes_eq_Nil length_0_conv)

lemma checkLabelName_sanitize:
  "checkLabelName (sanitizeLabelName s) \<longleftrightarrow> s \<noteq> [] \<and> take 2 (sanitizeLabelName s) \<noteq> ''__''"
  by (auto simp: checkLabelName_def IsValidLabelName_def sanitizeLabelName_valid_utf8
      sanitizeLabelName_eq_Nil)

section \<open>When a descriptor accepts the labels of an object\<close>

definition full_labels :: "label_vars \<Rightarrow> string list \<Rightarrow> go_map \<Rightarrow> string list" where
  "full_labels v defaults ls = defaults @ fst (getExtraLabelsAndValues v defaults ls)"

definition full_values ::
  "label_vars \<Rightarrow> string list \<Rightarrow> string list \<Rightarrow> go_map \<Rightarrow> string list" where
  "full_values v defaults vals ls = vals @ snd (getExtraLabelsAndValues v defaults ls)"

text \<open>
  The exact condition on the labels an object carries: after sanitizing, the names that are kept
  are accepted by the client, differ from each other and from the default labels.
\<close>

definition extras_ok :: "label_vars \<Rightarrow> string list \<Rightarrow> go_map \<Rightarrow> bool" where
  "extras_ok v defaults ls \<longleftrightarrow>
     list_all (\<lambda>(l, _). checkLabelName (sanitizeLabelName l)) (kept v defaults ls) \<and>
     distinct (map (\<lambda>(l, _). sanitizeLabelName l) (kept v defaults ls)) \<and>
     list_all (\<lambda>(l, _). sanitizeLabelName l \<notin> set defaults) (kept v defaults ls)"

lemma full_labels_ok_iff:
  assumes "label_names_ok defaults"
  shows "label_names_ok (full_labels v defaults ls) \<longleftrightarrow> extras_ok v defaults ls"
proof -
  let ?xs = "map (\<lambda>(l, _). sanitizeLabelName l) (kept v defaults ls)"
  have "label_names_ok (defaults @ ?xs) \<longleftrightarrow>
          list_all checkLabelName ?xs \<and> distinct ?xs \<and> set defaults \<inter> set ?xs = {}"
    using assms by (auto simp: label_names_ok_def)
  also have "list_all checkLabelName ?xs \<longleftrightarrow>
      list_all (\<lambda>(l, _). checkLabelName (sanitizeLabelName l)) (kept v defaults ls)"
    by (simp add: list.pred_map comp_def case_prod_unfold)
  also have "set defaults \<inter> set ?xs = {} \<longleftrightarrow>
      list_all (\<lambda>(l, _). sanitizeLabelName l \<notin> set defaults) (kept v defaults ls)"
    by (auto simp: list_all_iff disjoint_iff split_beta)
  finally show ?thesis
    by (simp add: full_labels_def getExtraLabelsAndValues_eq extras_ok_def)
qed

text \<open>An object without labels is always accepted; so is every object when no label is kept.\<close>

lemma extras_ok_none_kept: "kept v defaults ls = [] \<Longrightarrow> extras_ok v defaults ls"
  by (simp add: extras_ok_def)

lemma kept_Nil [simp]: "kept v defaults [] = []"
  by (simp add: kept_def)

text \<open>
  A kind of object whose metrics carry default labels and the object's own labels: what the
  collectors rely on is that the default names are themselves acceptable and that one value is
  given for each.
\<close>

locale label_scheme =
  fixes defaults :: "string list"
    and default_values :: "'r \<Rightarrow> string list"
    and labels_of :: "'r \<Rightarrow> go_map"
  assumes defaults_ok: "label_names_ok defaults"
    and default_arity: "length (default_values r) = length defaults"
begin

lemma arity: "length (full_values v defaults (default_values r) (labels_of r))
            = length (full_labels v defaults (labels_of r))"
  by (simp add: full_values_def full_labels_def getExtraLabelsAndValues_eq default_arity)

lemma values_ok_iff:
  "values_ok (full_values v defaults (default_values r) (labels_of r)) \<longleftrightarrow>
     values_ok (default_values r) \<and>
     list_all (\<lambda>(_, x). valid_utf8 x) (kept v defaults (labels_of r))"
  by (simp add: values_ok_def full_values_def getExtraLabelsAndValues_eq list.pred_map comp_def
      case_prod_unfold)

lemma info_send_ok_iff:
  assumes "IsValidMetricName fq"
  shows "send_ok (NewDesc fq h (full_labels v defaults (labels_of r)))
           (full_values v defaults (default_values r) (labels_of r)) \<longleftrightarrow>
     extras_ok v defaults (labels_of r) \<and> values_ok (default_values r) \<and>
     list_all (\<lambda>(_, x). valid_utf8 x) (kept v defaults (labels_of r))"
  using assms by (auto simp: send_ok_NewDesc full_labels_ok_iff [OF defaults_ok] arity values_ok_iff)

end

section \<open>The order of the labels\<close>

lemma kept_perm: "mset ls = mset ls' \<Longrightarrow> mset (kept v defaults ls) = mset (kept v defaults ls')"
  by (simp add: kept_def)

lemma extras_ok_perm:
  assumes "mset (kept v defaults ls) = mset (kept v defaults ls')"
  shows "extras_ok v defaults ls \<longleftrightarrow> extras_ok v defaults ls'"
proof -
  have "set (kept v defaults ls) = set (kept v defaults ls')" using assms by (rule mset_eq_setD)
  moreover have "mset (map f (kept v defaults ls)) = mset (map f (kept v defaults ls'))"
    for f :: "string \<times> string \<Rightarrow> string"
    using assms by simp
  then have "distinct (map f (kept v defaults ls)) \<longleftrightarrow> distinct (map f (kept v defaults ls'))"
    for f :: "string \<times> string \<Rightarrow> string"
    by (metis mset_eq_imp_distinct_iff)
  ultimately show ?thesis by (simp add: extras_ok_def list_all_iff)
qed

lemma label_pairs_perm:
  assumes "mset (kept v defaults ls) = mset (kept v defaults ls')"
    and "length vals = length defaults" and "distinct (full_labels v defaults ls')"
  shows "sort_key fst (zip (full_labels v defaults ls) (full_values v defaults vals ls)) =
    sort_key fst (zip (full_labels v defaults ls') (full_values v defaults vals ls'))"
proof -
  have z: "zip (full_labels v defaults l) (full_values v defaults vals l) =
      zip defaults vals @ map (\<lambda>(a, x). (sanitizeLabelName a, x)) (kept v defaults l)" for l
    using assms(2)
    by (simp add: full_labels_def full_values_def getExtraLabelsAndValues_eq zip_map_map
        zip_same_conv_map split_beta comp_def)
  have m: "mset (zip (full_labels v defaults ls) (full_values v defaults vals ls)) =
      mset (zip (full_labels v defaults ls') (full_values v defaults vals ls'))"
    unfolding z using assms(1) by simp
  have "length (full_labels v defaults ls') = length (full_values v defaults vals ls')"
    using assms(2) by (simp add: full_labels_def full_values_def getExtraLabelsAndValues_eq)
  then have "distinct (map fst (zip (full_labels v defaults ls') (full_values v defaults vals ls')))"
    using assms(3) by simp
  then have "inj_on fst (set (zip (full_labels v defaults ls) (full_values v defaults vals ls)))"
    using m by (metis distinct_map mset_eq_setD)
  then show ?thesis using m by (intro sort_key_inj_key_eq) simp_all
qed

end
