(* ===== verification/Coll_Core.thy ===== *)
theory Coll_Core
  imports Coll_Labels
begin

text \<open>
  What the collectors have in common (\<open>typedDesc\<close> and \<open>mustNewConstMetric\<close> of
  \<open>collector/collector.go\<close>, and the shape of every \<open>Update\<close>). A collector struct consists of
  \<open>typedDesc\<close> fields (and a logger): it is a function from the names of its fields. An \<open>Update\<close>
  that does not fail is the list of the assignments to descriptor fields and of the sends to the
  metric channel it performs, in program order. \<open>run_instrs\<close> executes such a list on the struct
  the receiver points to; the struct is shared by all scrapes, so the list is also what
  interleaves when two scrapes overlap.
\<close>

record typedDesc =
  td_desc :: "desc option"
  td_type :: value_type

type_synonym 'f collector = "'f \<Rightarrow> typedDesc"

definition typedDesc_mustNewConstMetric :: "typedDesc \<Rightarrow> f64 \<Rightarrow> string list \<Rightarrow> metric outcome" where
  "typedDesc_mustNewConstMetric d v labels = MustNewConstMetric (td_desc d) (td_type d) v labels"

datatype 'f instr =
    SetDesc 'f desc
  | Send 'f f64 "string list"

definition set_desc :: "'f collector \<Rightarrow> 'f \<Rightarrow> desc \<Rightarrow> 'f collector" where
  "set_desc c f d = c(f := (c f)\<lparr>td_desc := Some d\<rparr>)"

lemma set_desc_sel [simp]:
  "td_desc (set_desc c f d g) = (if g = f then Some d else td_desc (c g))"
  "td_type (set_desc c f d g) = td_type (c g)"
  by (simp_all add: set_desc_def)

fun exec_instr :: "'f collector \<Rightarrow> 'f instr \<Rightarrow> ('f collector \<times> metric list) outcome" where
  "exec_instr c (SetDesc f d) = Ok (set_desc c f d, [])"
| "exec_instr c (Send f v ls) =
     bind_outcome (typedDesc_mustNewConstMetric (c f) v ls) (\<lambda>m. Ok (c, [m]))"

text \<open>
  The result is the struct, the metrics sent before the end or the panic, and the panic. Metrics
  sent before a panic have reached the channel.
\<close>

fun run_instrs ::
  "'f collector \<Rightarrow> 'f instr list \<Rightarrow> 'f collector \<times> metric list \<times> go_panic option" where
  "run_instrs c [] = (c, [], None)"
| "run_instrs c (i # is) =
     (case exec_instr c i of
        Ok (c', ms) \<Rightarrow>
          (let (c'', ms', p) = run_instrs c' is in (c'', ms @ ms', p))
      | Panic p \<Rightarrow> (c, [], Some p)
      | Err e \<Rightarrow> (c, [], None))"

text \<open>An \<open>Update\<close> returns an error or panics before it sends anything, or runs its instructions.\<close>

definition run_update ::
  "'f collector \<Rightarrow> 'f instr list outcome \<Rightarrow>
     'f collector \<times> metric list \<times> go_error option outcome" where
  "run_update c u =
     (case u of
        Err e \<Rightarrow> (c, [], Ok (Some e))
      | Panic p \<Rightarrow> (c, [], Panic p)
      | Ok is \<Rightarrow>
          (let (c', ms, p) = run_instrs c is in
           (c', ms, case p of None \<Rightarrow> Ok None | Some q \<Rightarrow> Panic q)))"

lemma run_instrs_append:
  "run_instrs c (xs @ ys) =
     (let (c', ms, p) = run_instrs c xs in
      case p of
        None \<Rightarrow> (let (c'', ms', p') = run_instrs c' ys in (c'', ms @ ms', p'))
      | Some q \<Rightarrow> (c', ms, Some q))"
proof (induction xs arbitrary: c)
  case Nil
  then show ?case by (simp split: prod.splits)
next
  case (Cons i xs)
  have "exec_instr c i \<noteq> Err e" for e
    by (cases i) (auto simp: outcome typedDesc_mustNewConstMetric_def MustNewConstMetric_def
        split: option.splits sum.splits)
  then show ?case
    by (cases "exec_instr c i") (auto simp: Cons.IH Let_def split: prod.splits option.splits)
qed

text \<open>A block of the code: descriptors are assigned to fields, then metrics are sent from fields.\<close>

definition block :: "('f \<times> desc) list \<Rightarrow> ('f \<times> f64 \<times> string list) list \<Rightarrow> 'f instr list" where
  "block ds ss = map (\<lambda>(f, d). SetDesc f d) ds @ map (\<lambda>(f, v, ls). Send f v ls) ss"

text \<open>The struct after the assignments of a block.\<close>

fun set_descs :: "'f collector \<Rightarrow> ('f \<times> desc) list \<Rightarrow> 'f collector" where
  "set_descs c [] = c"
| "set_descs c ((f, d) # ds) = set_descs (set_desc c f d) ds"

lemma run_set_descs:
  "run_instrs c (map (\<lambda>(f, d). SetDesc f d) ds @ is) = run_instrs (set_descs c ds) is"
  by (induction c ds rule: set_descs.induct) (auto split: prod.splits)

lemma set_descs_notin: "f \<notin> fst ` set ds \<Longrightarrow> td_desc (set_descs c ds f) = td_desc (c f)"
  by (induction c ds rule: set_descs.induct) auto

lemma set_descs_type [simp]: "td_type (set_descs c ds f) = td_type (c f)"
  by (induction c ds rule: set_descs.induct) auto

lemma set_descs_in:
  "\<lbrakk>distinct (map fst ds); (f, d) \<in> set ds\<rbrakk> \<Longrightarrow> td_desc (set_descs c ds f) = Some d"
proof (induction c ds rule: set_descs.induct)
  case (2 c g e ds)
  then show ?case
    by (cases "f = g") (auto simp: set_descs_notin image_iff)
qed simp

text \<open>
  A send of a block, resolved: the descriptor its field has when the block's assignments are
  done. Then a block succeeds exactly when every resolved send does, and sends one metric for each.
\<close>

definition resolve ::
  "('f \<times> desc) list \<Rightarrow> 'f \<times> f64 \<times> string list \<Rightarrow> (desc \<times> string list) option" where
  "resolve ds s = (case map_of ds (fst s) of
     None \<Rightarrow> None | Some d \<Rightarrow> Some (d, snd (snd s)))"

definition block_ok :: "('f \<times> desc) list \<Rightarrow> ('f \<times> f64 \<times> string list) list \<Rightarrow> bool" where
  "block_ok ds ss \<longleftrightarrow>
     list_all (\<lambda>s. case resolve ds s of None \<Rightarrow> False | Some (d, ls) \<Rightarrow> send_ok d ls) ss"

definition block_metrics ::
  "('f \<Rightarrow> value_type) \<Rightarrow> ('f \<times> desc) list \<Rightarrow> ('f \<times> f64 \<times> string list) list \<Rightarrow> metric list" where
  "block_metrics ty ds ss =
     map (\<lambda>(f, v, ls). const_metric (the (map_of ds f)) (ty f) v ls) ss"

definition block_wf :: "('f \<times> desc) list \<Rightarrow> ('f \<times> f64 \<times> string list) list \<Rightarrow> bool" where
  "block_wf ds ss \<longleftrightarrow> distinct (map fst ds) \<and> fst ` set ss \<subseteq> fst ` set ds"

lemma set_descs_map_of:
  "\<lbrakk>distinct (map fst ds); map_of ds f = Some d\<rbrakk> \<Longrightarrow> td_desc (set_descs c ds f) = Some d"
  by (rule set_descs_in) (auto dest: map_of_SomeD)

lemma run_sends_ok:
  assumes "\<And>f. f \<in> fst ` set ss \<Longrightarrow> td_desc (c f) = Some (D f)"
    and "\<And>f v ls. (f, v, ls) \<in> set ss \<Longrightarrow> send_ok (D f) ls"
  shows "run_instrs c (map (\<lambda>(f, v, ls). Send f v ls) ss) =
    (c, map (\<lambda>(f, v, ls). const_metric (D f) (td_type (c f)) v ls) ss, None)"
  using assms
proof (induction ss)
  case (Cons s ss)
  obtain f v ls where s: "s = (f, v, ls)" by (cases s)
  have "run_instrs c (map (\<lambda>(f, v, ls). Send f v ls) ss) =
      (c, map (\<lambda>(f, v, ls). const_metric (D f) (td_type (c f)) v ls) ss, None)"
    using Cons.prems by (intro Cons.IH) auto
  moreover have "td_desc (c f) = Some (D f)" "send_ok (D f) ls" using Cons.prems s by auto
  ultimately show ?case
    by (simp add: s typedDesc_mustNewConstMetric_def MustNewConstMetric_ok)
qed simp

lemma run_sends_panic:
  assumes "\<And>f. f \<in> fst ` set ss \<Longrightarrow> td_desc (c f) = Some (D f)"
    and "(g, w, ks) \<in> set ss" and "\<not> send_ok (D g) ks"
  shows "\<exists>ms e. run_instrs c (map (\<lambda>(f, v, ls). Send f v ls) ss) =
    (c, ms, Some (PanicMetricErr e))"
  using assms
proof (induction ss)
  case (Cons s ss)
  obtain f v ls where s: "s = (f, v, ls)" by (cases s)
  have D: "td_desc (c f) = Some (D f)" using Cons.prems s by auto
  show ?case
  proof (cases "send_ok (D f) ls")
    case True
    then have "(g, w, ks) \<in> set ss" using Cons.prems s by auto
    then obtain ms e where "run_instrs c (map (\<lambda>(f, v, ls). Send f v ls) ss) =
        (c, ms, Some (PanicMetricErr e))"
      using Cons.IH Cons.prems by auto
    with True D s show ?thesis
      by (simp add: typedDesc_mustNewConstMetric_def MustNewConstMetric_ok)
  next
    case False
    then obtain e where "typedDesc_mustNewConstMetric (c f) v ls = Panic (PanicMetricErr e)"
      using D MustNewConstMetric_panics [OF False]
      by (auto simp: typedDesc_mustNewConstMetric_def)
    with s show ?thesis by auto
  qed
qed simp

lemma run_block:
  assumes "block_wf ds ss"
  shows "block_ok ds ss \<Longrightarrow>
      run_instrs c (block ds ss) =
        (set_descs c ds, block_metrics (\<lambda>f. td_type (c f)) ds ss, None)"
    and "\<not> block_ok ds ss \<Longrightarrow>
      \<exists>ms e. run_instrs c (block ds ss) = (set_descs c ds, ms, Some (PanicMetricErr e))"
proof -
  let ?D = "\<lambda>f. the (map_of ds f)"
  have dom: "f \<in> fst ` set ss \<Longrightarrow> \<exists>d. map_of ds f = Some d" for f
    using assms by (metis block_wf_def in_mono map_of_eq_None_iff not_None_eq)
  have dist: "distinct (map fst ds)" using assms by (simp add: block_wf_def)
  have D: "f \<in> fst ` set ss \<Longrightarrow> td_desc (set_descs c ds f) = Some (?D f)" for f
    using dom [of f] set_descs_map_of [OF dist, of f] by auto
  have one: "(case resolve ds s of None \<Rightarrow> False | Some (d, ls) \<Rightarrow> send_ok d ls) \<longleftrightarrow>
      send_ok (?D (fst s)) (snd (snd s))" if "s \<in> set ss" for s
    using dom [of "fst s"] that by (auto simp: resolve_def)
  have ok: "block_ok ds ss \<longleftrightarrow> (\<forall>(f, v, ls) \<in> set ss. send_ok (?D f) ls)"
    unfolding block_ok_def list_all_iff by (auto simp: one split_beta simp del: option.case_eq_if)
  show "block_ok ds ss \<Longrightarrow>
      run_instrs c (block ds ss) =
        (set_descs c ds, block_metrics (\<lambda>f. td_type (c f)) ds ss, None)"
  proof -
    assume "block_ok ds ss"
    then have "send_ok (?D f) ls" if "(f, v, ls) \<in> set ss" for f v ls using ok that by blast
    with run_sends_ok [where c = "set_descs c ds" and D = ?D and ss = ss, OF D] show ?thesis
      by (simp add: block_def run_set_descs block_metrics_def)
  qed
  assume "\<not> block_ok ds ss"
  then obtain g w ks where "(g, w, ks) \<in> set ss" "\<not> send_ok (?D g) ks" using ok by auto
  then show "\<exists>ms e. run_instrs c (block ds ss) = (set_descs c ds, ms, Some (PanicMetricErr e))"
    using run_sends_panic [where c = "set_descs c ds" and D = ?D and ss = ss, OF D]
    by (simp add: block_def run_set_descs)
qed

section \<open>Programs of blocks\<close>

type_synonym 'f blk = "('f \<times> desc) list \<times> ('f \<times> f64 \<times> string list) list"

definition program :: "'f blk list \<Rightarrow> 'f instr list" where
  "program bs = concat (map (\<lambda>(ds, ss). block ds ss) bs)"

definition blk_wf :: "'f blk \<Rightarrow> bool" where
  "blk_wf b = block_wf (fst b) (snd b)"

definition blk_ok :: "'f blk \<Rightarrow> bool" where
  "blk_ok b = block_ok (fst b) (snd b)"

lemma blk_pair [simp]:
  "blk_wf (ds, ss) = block_wf ds ss" "blk_ok (ds, ss) = block_ok ds ss"
  by (simp_all add: blk_wf_def blk_ok_def)

definition program_metrics :: "('f \<Rightarrow> value_type) \<Rightarrow> 'f blk list \<Rightarrow> metric list" where
  "program_metrics ty bs = concat (map (\<lambda>(ds, ss). block_metrics ty ds ss) bs)"

lemma program_simps [simp]:
  "program [] = []" "program ((ds, ss) # bs) = block ds ss @ program bs"
  "program (bs @ cs) = program bs @ program cs"
  by (simp_all add: program_def)

lemma program_metrics_simps [simp]:
  "program_metrics ty [] = []"
  "program_metrics ty ((ds, ss) # bs) = block_metrics ty ds ss @ program_metrics ty bs"
  "program_metrics ty (bs @ cs) = program_metrics ty bs @ program_metrics ty cs"
  by (simp_all add: program_metrics_def)

lemma run_program_ok:
  "\<lbrakk>list_all blk_wf bs; list_all blk_ok bs\<rbrakk> \<Longrightarrow>
     \<exists>c'. run_instrs c (program bs) = (c', program_metrics (\<lambda>f. td_type (c f)) bs, None) \<and>
          (\<forall>f. td_type (c' f) = td_type (c f))"
proof (induction bs arbitrary: c)
  case (Cons b bs)
  obtain ds ss where b: "b = (ds, ss)" by (cases b)
  with Cons.prems have wf: "block_wf ds ss" and ok: "block_ok ds ss"
    by (simp_all add: blk_wf_def blk_ok_def)
  obtain c' where "run_instrs (set_descs c ds) (program bs) =
      (c', program_metrics (\<lambda>f. td_type (c f)) bs, None)" "\<forall>f. td_type (c' f) = td_type (c f)"
    using Cons.IH [of "set_descs c ds"] Cons.prems by auto
  then show ?case
    by (simp add: b run_instrs_append run_block(1) [OF wf ok])
qed simp

lemma run_program_panic:
  "\<lbrakk>list_all blk_wf bs; \<not> list_all blk_ok bs\<rbrakk> \<Longrightarrow>
     \<exists>c' ms e. run_instrs c (program bs) = (c', ms, Some (PanicMetricErr e))"
proof (induction bs arbitrary: c)
  case (Cons b bs)
  obtain ds ss where b: "b = (ds, ss)" by (cases b)
  with Cons.prems have wf: "block_wf ds ss" by (simp add: blk_wf_def)
  show ?case
  proof (cases "block_ok ds ss")
    case True
    with Cons.prems b have "list_all blk_wf bs" "\<not> list_all blk_ok bs"
      by auto
    then obtain c' ms e
      where "run_instrs (set_descs c ds) (program bs) = (c', ms, Some (PanicMetricErr e))"
      using Cons.IH by blast
    with b True wf show ?thesis by (simp add: run_instrs_append run_block(1))
  next
    case False
    with run_block(2) [OF wf False, of c] b show ?thesis
      by (auto simp: run_instrs_append)
  qed
qed simp

section \<open>Blocks over one list of labels\<close>

definition namespace :: string where
  "namespace = ''podman''"

text \<open>
  The descriptors of one block: a table of field, metric name and help text, all with the same
  labels; and the sends of one block, all with the same label values.
\<close>

definition descs :: "string \<Rightarrow> ('f \<times> string \<times> string) list \<Rightarrow> string list \<Rightarrow> ('f \<times> desc) list" where
  "descs subsystem table labels =
     map (\<lambda>(f, n, h). (f, NewDesc (BuildFQName namespace subsystem n) h labels)) table"

definition sends :: "string list \<Rightarrow> ('f \<times> f64) list \<Rightarrow> ('f \<times> f64 \<times> string list) list" where
  "sends vals fvs = map (\<lambda>(f, v). (f, v, vals)) fvs"

definition table_ok :: "string \<Rightarrow> ('f \<times> string \<times> string) list \<Rightarrow> bool" where
  "table_ok subsystem table \<longleftrightarrow>
     distinct (map fst table) \<and>
     list_all (\<lambda>(f, n, h). IsValidMetricName (BuildFQName namespace subsystem n)) table"

lemma fst_descs [simp]: "map fst (descs sub table ls) = map fst table"
  by (auto simp: descs_def)

lemma fst_set_descs [simp]: "fst ` set (descs sub t ls) = fst ` set t"
  by (metis fst_descs list.set_map)

lemma fst_sends [simp]: "fst ` set (sends vs fvs) = fst ` set fvs"
  by (force simp: sends_def)

lemma map_of_descs:
  "map_of (descs sub table ls) f =
     map_option (\<lambda>(n, h). NewDesc (BuildFQName namespace sub n) h ls) (map_of table f)"
  by (induction table) (auto simp: descs_def)

lemma block_wf_table:
  "\<lbrakk>table_ok sub table; fst ` set fvs \<subseteq> fst ` set table\<rbrakk> \<Longrightarrow>
     block_wf (descs sub table ls) (sends vs fvs)"
proof -
  have "fst ` set (descs sub table ls) = fst ` set table"
    by (metis fst_descs list.set_map)
  then show "\<lbrakk>table_ok sub table; fst ` set fvs \<subseteq> fst ` set table\<rbrakk> \<Longrightarrow> ?thesis"
    by (simp add: block_wf_def table_ok_def)
qed

lemma block_ok_table:
  assumes "table_ok sub table" and "fst ` set fvs \<subseteq> fst ` set table" and "fvs \<noteq> []"
  shows "block_ok (descs sub table ls) (sends vs fvs) \<longleftrightarrow>
    label_names_ok ls \<and> length vs = length ls \<and> values_ok vs"
proof -
  have one: "(case resolve (descs sub table ls) (f, v, vs) of
        None \<Rightarrow> False | Some (d, ks) \<Rightarrow> send_ok d ks) \<longleftrightarrow>
      label_names_ok ls \<and> length vs = length ls \<and> values_ok vs" if "(f, v) \<in> set fvs" for f v
  proof -
    have "f \<in> fst ` set table" using assms(2) that by force
    then obtain n h where nh: "map_of table f = Some (n, h)"
      by (metis map_of_eq_None_iff not_None_eq surj_pair)
    then have "IsValidMetricName (BuildFQName namespace sub n)"
      using assms(1) map_of_SomeD [OF nh] by (auto simp: table_ok_def list_all_iff)
    with nh show ?thesis by (simp add: resolve_def map_of_descs send_ok_NewDesc)
  qed
  show ?thesis
    using assms(3) one by (cases fvs) (auto simp: block_ok_def sends_def list_all_iff)
qed

lemma block_ok_Nil [simp]: "block_ok ds (sends vs [])"
  by (simp add: block_ok_def sends_def)

text \<open>The direction the collectors use, with the three conditions on labels as one.\<close>

lemma block_ok_tableI:
  "\<lbrakk>table_ok sub table; fst ` set fvs \<subseteq> fst ` set table;
    label_names_ok ls \<and> length vs = length ls \<and> values_ok vs\<rbrakk>
   \<Longrightarrow> block_ok (descs sub table ls) (sends vs fvs)"
  by (cases "fvs = []") (simp_all add: block_ok_table)

lemma block_metrics_table:
  "block_metrics ty (descs sub table ls) (sends vs fvs) =
     map (\<lambda>(f, v). const_metric (the (map_of (descs sub table ls) f)) (ty f) v vs) fvs"
  by (auto simp: block_metrics_def sends_def)

text \<open>A block made of two parts over different labels, with the fields of the first set only there.\<close>

lemma map_of_parts:
  "f \<in> fst ` set d1 \<Longrightarrow> map_of (d1 @ d2) f = map_of d1 f"
  "f \<notin> fst ` set d1 \<Longrightarrow> map_of (d1 @ d2) f = map_of d2 f"
proof -
  show "f \<in> fst ` set d1 \<Longrightarrow> map_of (d1 @ d2) f = map_of d1 f"
  proof -
    assume "f \<in> fst ` set d1"
    then obtain d where "map_of d1 f = Some d" by (metis map_of_eq_None_iff not_None_eq)
    then show ?thesis by simp
  qed
  show "f \<notin> fst ` set d1 \<Longrightarrow> map_of (d1 @ d2) f = map_of d2 f"
    by (simp add: map_add_def map_of_eq_None_iff [THEN iffD2])
qed

lemma block_ok_append:
  assumes "fst ` set s1 \<subseteq> fst ` set d1" and "fst ` set s2 \<inter> fst ` set d1 = {}"
  shows "block_ok (d1 @ d2) (s1 @ s2) \<longleftrightarrow> block_ok d1 s1 \<and> block_ok d2 s2"
proof -
  have "fst s \<in> fst ` set d1" if "s \<in> set s1" for s using assms(1) that by blast
  moreover have "fst s \<notin> fst ` set d1" if "s \<in> set s2" for s using assms(2) that by blast
  ultimately show ?thesis
    unfolding block_ok_def list_all_append
    by (intro arg_cong2 [of _ _ _ _ "(\<and>)"] list.pred_cong refl)
       (simp_all add: resolve_def map_of_parts del: map_of_append)
qed

lemma block_metrics_append:
  assumes "fst ` set s1 \<subseteq> fst ` set d1" and "fst ` set s2 \<inter> fst ` set d1 = {}"
  shows "block_metrics ty (d1 @ d2) (s1 @ s2) = block_metrics ty d1 s1 @ block_metrics ty d2 s2"
proof -
  have "fst s \<in> fst ` set d1" if "s \<in> set s1" for s using assms(1) that by blast
  moreover have "fst s \<notin> fst ` set d1" if "s \<in> set s2" for s using assms(2) that by blast
  ultimately show ?thesis
    unfolding block_metrics_def map_append split_beta
    by (intro arg_cong2 [of _ _ _ _ "(@)"] map_cong refl) (simp_all add: map_of_parts del: map_of_append)
qed

section \<open>What a scrape shows of a metric\<close>

type_synonym sample = "string \<times> value_type \<times> (string \<times> string) list \<times> f64"

definition sample :: "metric \<Rightarrow> sample" where
  "sample m = (fqName (metric_desc m), metric_type m, metric_labels m, metric_value m)"

definition label_pairs :: "string list \<Rightarrow> string list \<Rightarrow> (string \<times> string) list" where
  "label_pairs names vals = sort_key fst (zip names vals)"

lemma samples_table:
  assumes "fst ` set fvs \<subseteq> fst ` set table"
  shows "map sample (block_metrics ty (descs sub table ls) (sends vs fvs)) =
     map (\<lambda>(f, v). (BuildFQName namespace sub (fst (the (map_of table f))), ty f,
                    label_pairs ls vs, v)) fvs"
proof -
  have "\<exists>n h. map_of table f = Some (n, h)" if "(f, v) \<in> set fvs" for f v
  proof -
    have "f \<in> fst ` set table" using assms that by force
    then show ?thesis by (metis map_of_eq_None_iff not_None_eq surj_pair)
  qed
  then show ?thesis
    by (auto simp: block_metrics_table sample_def const_metric_def map_of_descs label_pairs_def
        MakeLabelPairs_def split_beta) fastforce+
qed

text \<open>
  The block of an image and of a pod: an info metric over the full labels and further metrics over
  a second list of labels, which is acceptable whenever the first is.
\<close>

definition two_part_blk ::
  "string \<Rightarrow> ('f \<times> string \<times> string) list \<Rightarrow> ('f \<times> string \<times> string) list \<Rightarrow> string list \<Rightarrow> string list \<Rightarrow>
     string list \<Rightarrow> string list \<Rightarrow> ('f \<times> f64) list \<Rightarrow> ('f \<times> f64) list \<Rightarrow> 'f blk" where
  "two_part_blk sub t1 t2 l1 l2 v1 v2 f1 f2 =
     (descs sub t1 l1 @ descs sub t2 l2, sends v1 f1 @ sends v2 f2)"

lemma two_part_blk:
  assumes ok: "table_ok sub t1" "table_ok sub t2"
    and fields: "fst ` set f1 \<subseteq> fst ` set t1" "fst ` set f2 \<subseteq> fst ` set t2"
      "fst ` set t1 \<inter> fst ` set t2 = {}" "f1 \<noteq> []"
    and second: "label_names_ok l1 \<and> length v1 = length l1 \<and> values_ok v1 \<Longrightarrow>
      label_names_ok l2 \<and> length v2 = length l2 \<and> values_ok v2"
  shows "blk_wf (two_part_blk sub t1 t2 l1 l2 v1 v2 f1 f2)"
    and "blk_ok (two_part_blk sub t1 t2 l1 l2 v1 v2 f1 f2) \<longleftrightarrow>
      label_names_ok l1 \<and> length v1 = length l1 \<and> values_ok v1"
proof -
  show "blk_wf (two_part_blk sub t1 t2 l1 l2 v1 v2 f1 f2)"
    unfolding two_part_blk_def blk_pair block_wf_def map_append fst_descs set_append image_Un
      fst_set_descs fst_sends distinct_append
    using ok fields by (auto simp: table_ok_def)
  have "fst ` set (sends v1 f1) \<subseteq> fst ` set (descs sub t1 l1)"
    "fst ` set (sends v2 f2) \<inter> fst ` set (descs sub t1 l1) = {}"
    using fields(1-3) unfolding fst_set_descs fst_sends by blast+
  then show "blk_ok (two_part_blk sub t1 t2 l1 l2 v1 v2 f1 f2) \<longleftrightarrow>
      label_names_ok l1 \<and> length v1 = length l1 \<and> values_ok v1"
    unfolding two_part_blk_def blk_pair
    using block_ok_table [OF ok(1) fields(1) fields(4), of l1 v1]
      block_ok_tableI [OF ok(2) fields(2) second]
    by (subst block_ok_append) blast+
qed

lemma two_part_blk_samples:
  assumes "fst ` set f1 \<subseteq> fst ` set t1" "fst ` set f2 \<subseteq> fst ` set t2"
    "fst ` set t1 \<inter> fst ` set t2 = {}"
  shows "map sample (program_metrics ty [two_part_blk sub t1 t2 l1 l2 v1 v2 f1 f2]) =
    map (\<lambda>(f, v). (BuildFQName namespace sub (fst (the (map_of t1 f))), ty f, label_pairs l1 v1, v)) f1
    @ map (\<lambda>(f, v). (BuildFQName namespace sub (fst (the (map_of t2 f))), ty f, label_pairs l2 v2, v)) f2"
proof -
  have "fst ` set (sends v1 f1) \<subseteq> fst ` set (descs sub t1 l1)"
    "fst ` set (sends v2 f2) \<inter> fst ` set (descs sub t1 l1) = {}"
    using assms unfolding fst_set_descs fst_sends by blast+
  then show ?thesis
    unfolding two_part_blk_def program_metrics_simps append_Nil2
    by (subst block_metrics_append)
       (simp_all only: map_append samples_table [OF assms(1)] samples_table [OF assms(2)])
qed

text \<open>
  A collector that emits, for every reported object, blocks that set the descriptors they use.
  Its client (\<open>execute\<close>, and through it the scrape) relies on one law: the blocks of an object go
  through exactly when the object is acceptable.
\<close>

locale row_collector =
  fixes types :: "'f \<Rightarrow> value_type"
    and blocks :: "'r \<Rightarrow> 'f blk list"
    and row_ok :: "'r \<Rightarrow> bool"
  assumes blocks_wf: "list_all blk_wf (blocks r)"
    and blocks_ok: "list_all blk_ok (blocks r) \<longleftrightarrow> row_ok r"
begin

lemma all_wf: "list_all blk_wf (concat (map blocks rs))"
  using blocks_wf by (induction rs) simp_all

lemma all_ok: "list_all blk_ok (concat (map blocks rs)) \<longleftrightarrow> list_all row_ok rs"
  using blocks_ok by (induction rs) simp_all

lemma run_rows_ok:
  assumes "list_all row_ok rs" and "\<And>f. td_type (c f) = types f"
  shows "\<exists>c'. run_update c (Ok (program (concat (map blocks rs)))) =
      (c', program_metrics types (concat (map blocks rs)), Ok None) \<and>
      (\<forall>f. td_type (c' f) = types f)"
  using run_program_ok [OF all_wf, of rs c] assms by (auto simp: run_update_def all_ok)

lemma run_rows_panic_iff:
  "(\<exists>p. snd (snd (run_update c (Ok (program (concat (map blocks rs)))))) = Panic p) \<longleftrightarrow>
     \<not> list_all row_ok rs"
  using run_program_ok [OF all_wf, of rs c] run_program_panic [OF all_wf, of rs c]
  by (auto simp: run_update_def all_ok)

end

text \<open>With the samples of one object stated, the samples of a scrape follow.\<close>

locale sampled_collector = row_collector types blocks row_ok
  for types :: "'f \<Rightarrow> value_type"
    and blocks :: "'r \<Rightarrow> 'f blk list"
    and row_ok :: "'r \<Rightarrow> bool" +
  fixes samples :: "'r \<Rightarrow> sample list"
  assumes blocks_samples: "map sample (program_metrics types (blocks r)) = samples r"
begin

lemma rows_samples:
  "map sample (program_metrics types (concat (map blocks rs))) = concat (map samples rs)"
  by (induction rs) (simp_all add: blocks_samples)

lemma run_rows_samples:
  assumes "list_all row_ok rs" and "\<And>f. td_type (c f) = types f"
  shows "\<exists>c' ms. run_update c (Ok (program (concat (map blocks rs)))) = (c', ms, Ok None) \<and>
      map sample ms = concat (map samples rs) \<and> (\<forall>f. td_type (c' f) = types f)"
  using run_rows_ok [of rs c] assms rows_samples [of rs] by blast

text \<open>Both outcomes of an update, for a struct with the right types.\<close>

lemma run_correct:
  assumes "\<And>f. td_type (c f) = types f"
  shows "if list_all row_ok rs
    then \<exists>c' ms. run_update c (Ok (program (concat (map blocks rs)))) = (c', ms, Ok None) \<and>
           map sample ms = concat (map samples rs)
    else \<exists>c' ms p. run_update c (Ok (program (concat (map blocks rs)))) = (c', ms, Panic p)"
proof (cases "list_all row_ok rs")
  case True
  then obtain c' ms where "run_update c (Ok (program (concat (map blocks rs)))) = (c', ms, Ok None)"
    "map sample ms = concat (map samples rs)"
    using run_rows_samples [of rs c] assms by blast
  with True show ?thesis by simp
next
  case False
  then have "\<exists>p. snd (snd (run_update c (Ok (program (concat (map blocks rs)))))) = Panic p"
    using run_rows_panic_iff by blast
  then show ?thesis using False by (metis prod.collapse)
qed

end

end
