(* ===== verification/Pdcs_Utils.thy ===== *)
theory Pdcs_Utils
  imports Go_Runtime
begin

text \<open>
  The helpers of \<open>pdcs/utils.go\<close>: the numeric codes of container, health and pod states, short
  identifiers, and the text of port mappings. A \<open>uint16\<close> port is a \<open>16 word\<close>, so the end of a port
  range is computed with the wrap-around of Go. \<open>RemoveScientificNotationFromFloat\<close> is in
  \<open>Pdcs_Scientific\<close>.
\<close>

section \<open>Identifiers\<close>

definition idLimit :: nat where
  "idLimit = 12"

definition getID :: "string \<Rightarrow> string" where
  "getID i =
     (if 0 < length i then (if idLimit \<le> length i then take idLimit i else i) else i)"

lemma getID_take: "getID i = take 12 i"
  by (simp add: getID_def idLimit_def)

lemma getID_idem [simp]: "getID (getID i) = getID i"
  by (simp add: getID_take)

section \<open>State codes\<close>

text \<open>The constants are counted from 0 by \<open>iota\<close>.\<close>

definition podStateCreated :: int where "podStateCreated = 0"
definition podStateError :: int where "podStateError = 1"
definition podStateExited :: int where "podStateExited = 2"
definition podStatePaused :: int where "podStatePaused = 3"
definition podStateRunning :: int where "podStateRunning = 4"
definition podStateDegraded :: int where "podStateDegraded = 5"
definition podStateStopped :: int where "podStateStopped = 6"

definition containerStateCreated :: int where "containerStateCreated = 0"
definition containerStateInitialized :: int where "containerStateInitialized = 1"
definition containerStateRunning :: int where "containerStateRunning = 2"
definition containerStateStopped :: int where "containerStateStopped = 3"
definition containerStatePaused :: int where "containerStatePaused = 4"
definition containerStateExited :: int where "containerStateExited = 5"
definition containerStateRemoving :: int where "containerStateRemoving = 6"
definition containerStateStopping :: int where "containerStateStopping = 7"

definition containerHealthHealthy :: int where "containerHealthHealthy = 0"
definition containerHealthUnhealthy :: int where "containerHealthUnhealthy = 1"
definition containerHealthStarting :: int where "containerHealthStarting = 2"

definition stateUnknown :: int where "stateUnknown = -1"
definition healthUnknown :: int where "healthUnknown = -1"

lemmas state_constants =
  podStateCreated_def podStateError_def podStateExited_def
  podStatePaused_def podStateRunning_def podStateDegraded_def
  podStateStopped_def containerStateCreated_def containerStateInitialized_def
  containerStateRunning_def containerStateStopped_def containerStatePaused_def
  containerStateExited_def containerStateRemoving_def containerStateStopping_def
  containerHealthHealthy_def containerHealthUnhealthy_def containerHealthStarting_def stateUnknown_def healthUnknown_def

definition podReporter_status :: "string \<Rightarrow> int" where
  "podReporter_status status =
     (let state = go_to_lower status in
      if state = ''created'' then podStateCreated
      else if state = ''error'' then podStateError
      else if state = ''exited'' then podStateExited
      else if state = ''paused'' then podStatePaused
      else if state = ''running'' then podStateRunning
      else if state = ''degraded'' then podStateDegraded
      else if state = ''stopped'' then podStateStopped
      else stateUnknown)"

definition conReporter_state :: "string \<Rightarrow> int" where
  "conReporter_state s =
     (let state = go_to_lower s in
      if state = ''created'' then containerStateCreated
      else if state = ''initialized'' then containerStateInitialized
      else if state = ''running'' then containerStateRunning
      else if state = ''stopped'' then containerStateStopped
      else if state = ''paused'' then containerStatePaused
      else if state = ''exited'' then containerStateExited
      else if state = ''removing'' then containerStateRemoving
      else if state = ''stopping'' then containerStateStopping
      else stateUnknown)"

definition conReporter_health :: "string \<Rightarrow> int" where
  "conReporter_health status =
     (let health = go_to_lower status in
      if health = ''healthy'' then containerHealthHealthy
      else if health = ''unhealthy'' then containerHealthUnhealthy
      else if health = ''starting'' then containerHealthStarting
      else healthUnknown)"

text \<open>
  The documented tables: the help texts of the state metrics list the states in the order of
  their codes. \<open>code_of\<close> is the position of a name in such a list, -1 when it is absent.
\<close>

fun code_from :: "int \<Rightarrow> string list \<Rightarrow> string \<Rightarrow> int" where
  "code_from k [] s = -1"
| "code_from k (n # ns) s = (if s = n then k else code_from (k + 1) ns s)"

definition code_of :: "string list \<Rightarrow> string \<Rightarrow> int" where
  "code_of = code_from 0"

definition container_states :: "string list" where
  "container_states =
     [''created'', ''initialized'', ''running'', ''stopped'', ''paused'', ''exited'', ''removing'',
      ''stopping'']"

definition container_healths :: "string list" where
  "container_healths = [''healthy'', ''unhealthy'', ''starting'']"

definition pod_states :: "string list" where
  "pod_states =
     [''created'', ''error'', ''exited'', ''paused'', ''running'', ''degraded'', ''stopped'']"

lemma state_codes:
  "conReporter_state s = code_of container_states (go_to_lower s)"
  "conReporter_health s = code_of container_healths (go_to_lower s)"
  "podReporter_status s = code_of pod_states (go_to_lower s)"
  by (simp_all add: conReporter_state_def conReporter_health_def podReporter_status_def code_of_def
      container_states_def container_healths_def pod_states_def Let_def state_constants)

lemma code_from_bounds:
  "0 \<le> k \<Longrightarrow> code_from k ns s = -1 \<or> k \<le> code_from k ns s \<and> code_from k ns s < k + int (length ns)"
  by (induction k ns s rule: code_from.induct) auto

lemma code_of_bounds: "-1 \<le> code_of ns s \<and> code_of ns s < int (length ns)"
  using code_from_bounds [of 0 ns s] by (auto simp: code_of_def)

lemma code_from_ge: "0 \<le> k \<Longrightarrow> s \<in> set ns \<Longrightarrow> k \<le> code_from k ns s"
  by (induction k ns s rule: code_from.induct) (auto intro: order_trans)

lemma code_of_unknown_iff: "code_of ns s = -1 \<longleftrightarrow> s \<notin> set ns"
proof -
  have "s \<notin> set ns \<Longrightarrow> code_from k ns s = -1" for k
    by (induction k ns s rule: code_from.induct) auto
  moreover have "s \<in> set ns \<Longrightarrow> 0 \<le> code_from 0 ns s"
    by (rule code_from_ge) auto
  ultimately show ?thesis by (force simp: code_of_def)
qed

lemma code_from_nth:
  "\<lbrakk>distinct ns; i < length ns\<rbrakk> \<Longrightarrow> code_from k ns (ns ! i) = k + int i"
proof (induction ns arbitrary: k i)
  case (Cons n ns)
  then show ?case by (cases i) (auto simp: nth_mem)
qed simp

lemma code_of_nth: "\<lbrakk>distinct ns; i < length ns\<rbrakk> \<Longrightarrow> code_of ns (ns ! i) = int i"
  by (simp add: code_of_def code_from_nth)

section \<open>Ports\<close>

record port_mapping =
  HostIP :: string
  ContainerPort :: uint16
  HostPort :: uint16
  Range :: uint16
  Protocol :: string

definition dec_u16 :: "uint16 \<Rightarrow> string" where
  "dec_u16 w = dec_nat (unat w)"

text \<open>One \<open>Fprintf\<close> of the inner loop.\<close>

definition port_line :: "string \<Rightarrow> port_mapping \<Rightarrow> string \<Rightarrow> string" where
  "port_line hostIP port protocol =
     (if 1 < Range port
      then hostIP @ '':'' @ dec_u16 (HostPort port) @ ''-'' @ dec_u16 (HostPort port + Range port - 1)
        @ ''->'' @ dec_u16 (ContainerPort port) @ ''-''
        @ dec_u16 (ContainerPort port + Range port - 1) @ ''/'' @ protocol @ '', ''
      else hostIP @ '':'' @ dec_u16 (HostPort port) @ ''->'' @ dec_u16 (ContainerPort port)
        @ ''/'' @ protocol @ '', '')"

definition port_lines :: "port_mapping \<Rightarrow> string list" where
  "port_lines port =
     (let hostIP = (if HostIP port = [] then ''0.0.0.0'' else HostIP port) in
      map (port_line hostIP port) (go_split CHR '','' (Protocol port)))"

text \<open>The final slice expression panics when its bound is negative.\<close>

definition portsToString :: "port_mapping list \<Rightarrow> string outcome" where
  "portsToString ports =
     (if ports = [] then Ok []
      else let display = concat (concat (map port_lines ports)) in
        if length display < 2 then Panic (IndexOutOfRange (length display) 2)
        else Ok (take (length display - 2) display))"

definition conReporter_ports :: "port_mapping list \<Rightarrow> string outcome" where
  "conReporter_ports ports = (if length ports < 1 then Ok [] else portsToString ports)"

text \<open>The printed end of a range.\<close>

lemma range_end_wrap:
  "unat (p + r - 1 :: uint16) = (unat p + unat r + 65535) mod 65536"
proof -
  have "p + r - 1 = p + r + (65535 :: uint16)" by simp
  moreover have "unat (p + r + 65535) = (unat p + unat r + 65535) mod 65536"
    by (simp add: unat_word_ariths mod_simps)
  ultimately show ?thesis by (simp only:)
qed

lemma range_end_mod:
  "1 < r \<Longrightarrow> unat (p + r - 1 :: uint16) = (unat p + unat r - 1) mod 65536"
proof -
  assume "1 < r"
  then have "1 < unat r" by (simp add: word_less_nat_alt)
  then have "(unat p + unat r + 65535) mod 65536 = (unat p + unat r - 1 + 65536) mod 65536"
    by (intro arg_cong [of _ _ "\<lambda>n. n mod 65536"]) simp
  then show ?thesis by (simp only: range_end_wrap mod_add_self2)
qed

text \<open>
  The reference text of one published port, without the trailing separator, over natural numbers:
  the last port of a range is the sum modulo \<open>2^16\<close>.
\<close>

definition port_range :: "nat \<Rightarrow> nat \<Rightarrow> string" where
  "port_range port count =
     dec_nat port @ (if 1 < count then ''-'' @ dec_nat ((port + count - 1) mod 65536) else [])"

definition port_entry :: "string \<Rightarrow> port_mapping \<Rightarrow> string \<Rightarrow> string" where
  "port_entry hostIP port protocol =
     hostIP @ '':'' @ port_range (unat (HostPort port)) (unat (Range port))
     @ ''->'' @ port_range (unat (ContainerPort port)) (unat (Range port)) @ ''/'' @ protocol"

definition port_entries :: "port_mapping \<Rightarrow> string list" where
  "port_entries port =
     map (port_entry (if HostIP port = [] then ''0.0.0.0'' else HostIP port) port)
       (go_split CHR '','' (Protocol port))"

lemma port_lines_entries: "port_lines port = map (\<lambda>e. e @ '', '') (port_entries port)"
proof -
  have "1 < Range port \<longleftrightarrow> 1 < unat (Range port)" by (simp add: word_less_nat_alt)
  then show ?thesis
    by (simp add: port_lines_def port_entries_def port_line_def port_entry_def port_range_def
        dec_u16_def range_end_mod Let_def)
qed

lemma port_entries_nonempty: "port_entries port \<noteq> []"
  by (simp add: port_entries_def)

lemma concat_terminated:
  "xs \<noteq> [] \<Longrightarrow> concat (map (\<lambda>e. e @ sep) xs) = go_join sep xs @ sep"
proof (induction xs)
  case (Cons x xs)
  then show ?case by (cases "xs = []") (simp_all add: go_join_Cons)
qed simp

lemma conReporter_ports_join:
  "conReporter_ports ports = Ok (go_join '', '' (concat (map port_entries ports)))"
proof (cases "ports = []")
  case True
  then show ?thesis by (simp add: conReporter_ports_def)
next
  case False
  then have ne: "concat (map port_entries ports) \<noteq> []"
    using port_entries_nonempty by (cases ports) auto
  have "concat (concat (map port_lines ports))
      = concat (map (\<lambda>e. e @ '', '') (concat (map port_entries ports)))"
    by (simp add: port_lines_entries [abs_def] map_concat comp_def)
  also have "\<dots> = go_join '', '' (concat (map port_entries ports)) @ '', ''"
    using ne by (rule concat_terminated)
  finally show ?thesis
    using False by (simp add: conReporter_ports_def portsToString_def Let_def Suc_le_eq)
qed

end
