(* ===== verification/Pdcs_Container.thy ===== *)
theory Pdcs_Container
  imports Pdcs_Utils "HOL-Library.Multiset"
begin

text \<open>
  \<open>pdcs/container.go\<close>: the list of containers, their statistics and the cache of container sizes.
  What the podman engine answers is a parameter: \<open>ContainerList\<close> returns an error or a list of
  \<open>list_container\<close> records (the fields of \<open>entities.ListContainer\<close> the code reads; times are Unix
  seconds), the statistics channel delivers what \<open>stats_event\<close> says. The package variable
  \<open>cntSizeCache\<close> is the record \<open>containerSizeCache\<close>; its Go map is nil until \<open>SetupRegistry\<close> makes
  it, and writing to a nil map panics. The operations here run one at a time; \<open>Pdcs_SizeRace\<close> has
  them interleaved, since \<open>Containers\<close> reads the map without the lock.
\<close>

section \<open>Data\<close>

record Container =
  cnt_ID :: string
  cnt_PodID :: string
  cnt_PodName :: string
  cnt_Name :: string
  cnt_Labels :: go_map
  cnt_Image :: string
  cnt_ImageID :: string
  cnt_Created :: int64
  cnt_Started :: int64
  cnt_Exited :: int64
  cnt_ExitCode :: "32 word"
  cnt_Ports :: string
  cnt_State :: int
  cnt_Health :: int
  cnt_RwSize :: int64
  cnt_RootFsSize :: int64

record ContainerStat =
  st_ID :: string
  st_Name :: string
  st_PIDs :: uint64
  st_CPU :: f64
  st_CPUSystem :: f64
  st_MemUsage :: uint64
  st_MemLimit :: uint64
  st_NetInput :: uint64
  st_NetOutput :: uint64
  st_NetInputDropped :: uint64
  st_NetInputErrors :: uint64
  st_NetInputPackets :: uint64
  st_NetOutputDropped :: uint64
  st_NetOutputErrors :: uint64
  st_NetOutputPackets :: uint64
  st_BlockInput :: uint64
  st_BlockOutput :: uint64

record containerSize =
  rwSize :: int64
  rootFsSize :: int64

record containerSizeCache =
  cacheError :: "go_error option"
  cache :: "(string \<rightharpoonup> containerSize) option"

definition initial_size_cache :: containerSizeCache where
  "initial_size_cache = \<lparr>cacheError = None, cache = None\<rparr>"

text \<open>What the engine reports.\<close>

record list_container =
  lc_ID :: string
  lc_Pod :: string
  lc_PodName :: string
  lc_Names :: "string list"
  lc_Image :: string
  lc_ImageID :: string
  lc_Created :: int64
  lc_StartedAt :: int64
  lc_ExitedAt :: int64
  lc_ExitCode :: "32 word"
  lc_State :: string
  lc_Status :: string
  lc_Ports :: "port_mapping list"
  lc_Labels :: go_map
  lc_Size :: "containerSize option"

record network_stats =
  RxBytes :: uint64
  RxDropped :: uint64
  RxErrors :: uint64
  RxPackets :: uint64
  TxBytes :: uint64
  TxDropped :: uint64
  TxErrors :: uint64
  TxPackets :: uint64

record container_stats =
  cs_ContainerID :: string
  cs_Name :: string
  cs_PIDs :: uint64
  cs_CPUNano :: uint64
  cs_CPUSystemNano :: uint64
  cs_MemUsage :: uint64
  cs_MemLimit :: uint64
  cs_Network :: "(string \<times> network_stats) list"
  cs_BlockInput :: uint64
  cs_BlockOutput :: uint64

record stats_report =
  sr_Error :: "go_error option"
  sr_Stats :: "container_stats list"

text \<open>
  The case the \<open>select\<close> of \<open>getStat\<close> takes: the deadline, or a receive. A receive from the closed
  channel yields the zero report.
\<close>

datatype stats_event = CtxDone | Received stats_report

definition zero_report :: stats_report where
  "zero_report = \<lparr>sr_Error = None, sr_Stats = []\<rparr>"

section \<open>Containers\<close>

text \<open>Reading a key of a Go map; a nil map has none.\<close>

definition cache_lookup :: "(string \<rightharpoonup> containerSize) option \<Rightarrow> string \<Rightarrow> containerSize option" where
  "cache_lookup c k = (case c of None \<Rightarrow> None | Some m \<Rightarrow> m k)"

definition clamp_time :: "int64 \<Rightarrow> int64" where
  "clamp_time t = (if t <s 0 then -1 else t)"

text \<open>The body of the loop; \<open>rep.Names[0]\<close> panics when a container has no name.\<close>

definition container_of ::
  "(string \<rightharpoonup> containerSize) option \<Rightarrow> list_container \<Rightarrow> Container outcome" where
  "container_of cacheSizeInfo rep =
     (let cntID = getID (lc_ID rep);
          (rw, rootFs) = (case cache_lookup cacheSizeInfo cntID of
             Some sz \<Rightarrow> (rwSize sz, rootFsSize sz) | None \<Rightarrow> (0, 0))
      in
      (case lc_Names rep of
         [] \<Rightarrow> Panic (IndexOutOfRange 0 0)
       | name # _ \<Rightarrow>
           bind_outcome (conReporter_ports (lc_Ports rep)) (\<lambda>ports.
             Ok \<lparr>cnt_ID = cntID, cnt_PodID = getID (lc_Pod rep), cnt_PodName = lc_PodName rep,
                 cnt_Name = name, cnt_Labels = lc_Labels rep, cnt_Image = lc_Image rep,
                 cnt_ImageID = getID (lc_ImageID rep), cnt_Created = lc_Created rep,
                 cnt_Started = clamp_time (lc_StartedAt rep),
                 cnt_Exited = clamp_time (lc_ExitedAt rep), cnt_ExitCode = lc_ExitCode rep,
                 cnt_Ports = ports, cnt_State = conReporter_state (lc_State rep),
                 cnt_Health = conReporter_health (lc_Status rep),
                 cnt_RwSize = rw, cnt_RootFsSize = rootFs\<rparr>)))"

text \<open>
  The early return on a cache error returns the variable \<open>err\<close>, which is nil at that point: the
  caller sees an empty list and no error.
\<close>

definition Containers ::
  "go_error + list_container list \<Rightarrow> containerSizeCache \<Rightarrow> Container list outcome" where
  "Containers engine c =
     (case engine of
        Inl e \<Rightarrow> Err e
      | Inr reports \<Rightarrow>
          (if cacheError c \<noteq> None then Ok []
           else traverse (container_of (cache c)) reports))"

section \<open>Statistics\<close>

definition nano :: f64 where
  "nano = 1000000000"

definition net_sum :: "(network_stats \<Rightarrow> uint64) \<Rightarrow> (string \<times> network_stats) list \<Rightarrow> uint64" where
  "net_sum f nets = fold (\<lambda>(_, net) acc. acc + f net) nets 0"

definition stat_of :: "container_stats \<Rightarrow> ContainerStat" where
  "stat_of rep =
     \<lparr>st_ID = getID (cs_ContainerID rep), st_Name = cs_Name rep, st_PIDs = cs_PIDs rep,
      st_CPU = f64_div (f64_of_uint64 (cs_CPUNano rep)) nano,
      st_CPUSystem = f64_div (f64_of_uint64 (cs_CPUSystemNano rep)) nano,
      st_MemUsage = cs_MemUsage rep, st_MemLimit = cs_MemLimit rep,
      st_NetInput = net_sum RxBytes (cs_Network rep),
      st_NetOutput = net_sum TxBytes (cs_Network rep),
      st_NetInputDropped = net_sum RxDropped (cs_Network rep),
      st_NetInputErrors = net_sum RxErrors (cs_Network rep),
      st_NetInputPackets = net_sum RxPackets (cs_Network rep),
      st_NetOutputDropped = net_sum TxDropped (cs_Network rep),
      st_NetOutputErrors = net_sum TxErrors (cs_Network rep),
      st_NetOutputPackets = net_sum TxPackets (cs_Network rep),
      st_BlockInput = cs_BlockInput rep, st_BlockOutput = cs_BlockOutput rep\<rparr>"

definition getStat :: "stats_event \<Rightarrow> go_error + container_stats list" where
  "getStat ev = (case ev of CtxDone \<Rightarrow> Inl ErrDeadline | Received s \<Rightarrow> Inr (sr_Stats s))"

definition ContainersStats ::
  "go_error option \<Rightarrow> stats_event \<Rightarrow> go_error + ContainerStat list" where
  "ContainersStats engineErr ev =
     (case engineErr of
        Some e \<Rightarrow> Inl e
      | None \<Rightarrow>
          (case getStat ev of
             Inl e \<Rightarrow> Inl e
           | Inr statReport \<Rightarrow> Inr (map stat_of statReport)))"

section \<open>The size cache\<close>

definition size_of_container :: "list_container \<Rightarrow> containerSize" where
  "size_of_container cnt =
     (case lc_Size cnt of
        Some sz \<Rightarrow> \<lparr>rwSize = rwSize sz, rootFsSize = rootFsSize sz\<rparr>
      | None \<Rightarrow> \<lparr>rwSize = 0, rootFsSize = 0\<rparr>)"

definition cache_put ::
  "string \<Rightarrow> containerSize \<Rightarrow> containerSizeCache \<Rightarrow> containerSizeCache outcome" where
  "cache_put k sz c =
     (case cache c of
        None \<Rightarrow> Panic NilMapAssignment
      | Some m \<Rightarrow> Ok (c\<lparr>cache := Some (m(k \<mapsto> sz))\<rparr>))"

fun put_sizes :: "list_container list \<Rightarrow> containerSizeCache \<Rightarrow> containerSizeCache outcome" where
  "put_sizes [] c = Ok c"
| "put_sizes (cnt # reports) c =
     bind_outcome (cache_put (getID (lc_ID cnt)) (size_of_container cnt) c) (put_sizes reports)"

definition updateContainerSize ::
  "go_error + list_container list \<Rightarrow> containerSizeCache \<Rightarrow> containerSizeCache outcome" where
  "updateContainerSize engine c =
     (case engine of
        Inl e \<Rightarrow> Ok (c\<lparr>cacheError := Some e\<rparr>)
      | Inr reports \<Rightarrow> put_sizes reports c)"

text \<open>\<open>SetupRegistry\<close> makes the map.\<close>

definition SetupRegistry_cache :: "containerSizeCache \<Rightarrow> containerSizeCache" where
  "SetupRegistry_cache c = c\<lparr>cache := Some (\<lambda>_. None)\<rparr>"

text \<open>The refreshes the ticker performs, one after the other.\<close>

fun refresh_all ::
  "(go_error + list_container list) list \<Rightarrow> containerSizeCache \<Rightarrow> containerSizeCache outcome" where
  "refresh_all [] c = Ok c"
| "refresh_all (r # rs) c = bind_outcome (updateContainerSize r c) (refresh_all rs)"

section \<open>Lemmas\<close>

lemma net_sum_sum_list: "net_sum f nets = sum_list (map (\<lambda>(_, n). f n) nets)"
proof -
  have "fold (\<lambda>(_, net) acc. acc + f net) nets a = a + sum_list (map (\<lambda>(_, n). f n) nets)" for a
    by (induction nets arbitrary: a) (auto simp: algebra_simps)
  then show ?thesis by (simp add: net_sum_def)
qed

lemma net_sum_perm: "mset nets = mset nets' \<Longrightarrow> net_sum f nets = net_sum f nets'"
  unfolding net_sum_sum_list by (metis mset_map sum_mset_sum_list)

lemma uint_sum_list:
  "uint (sum_list (xs :: uint64 list)) = sum_list (map uint xs) mod 2 ^ 64"
  by (induction xs) (simp_all add: uint_word_ariths mod_simps)

text \<open>The network counters are the sums over the interfaces modulo \<open>2^64\<close>.\<close>

lemma network_totals:
  "uint (st_NetInput (stat_of r)) = sum_list (map (uint \<circ> RxBytes \<circ> snd) (cs_Network r)) mod 2 ^ 64 \<and>
   uint (st_NetOutput (stat_of r)) = sum_list (map (uint \<circ> TxBytes \<circ> snd) (cs_Network r)) mod 2 ^ 64 \<and>
   uint (st_NetInputPackets (stat_of r)) =
     sum_list (map (uint \<circ> RxPackets \<circ> snd) (cs_Network r)) mod 2 ^ 64 \<and>
   uint (st_NetOutputPackets (stat_of r)) =
     sum_list (map (uint \<circ> TxPackets \<circ> snd) (cs_Network r)) mod 2 ^ 64 \<and>
   uint (st_NetInputErrors (stat_of r)) =
     sum_list (map (uint \<circ> RxErrors \<circ> snd) (cs_Network r)) mod 2 ^ 64 \<and>
   uint (st_NetOutputErrors (stat_of r)) =
     sum_list (map (uint \<circ> TxErrors \<circ> snd) (cs_Network r)) mod 2 ^ 64 \<and>
   uint (st_NetInputDropped (stat_of r)) =
     sum_list (map (uint \<circ> RxDropped \<circ> snd) (cs_Network r)) mod 2 ^ 64 \<and>
   uint (st_NetOutputDropped (stat_of r)) =
     sum_list (map (uint \<circ> TxDropped \<circ> snd) (cs_Network r)) mod 2 ^ 64"
  by (simp add: stat_of_def net_sum_sum_list uint_sum_list comp_def split_beta)

text \<open>The entry of a container with a name, field by field, with the size the cache has for it.\<close>

definition listed_container ::
  "(string \<rightharpoonup> containerSize) option \<Rightarrow> list_container \<Rightarrow> Container" where
  "listed_container m rep =
     (let sz = cache_lookup m (take 12 (lc_ID rep)) in
      \<lparr>cnt_ID = take 12 (lc_ID rep), cnt_PodID = take 12 (lc_Pod rep),
       cnt_PodName = lc_PodName rep, cnt_Name = hd (lc_Names rep), cnt_Labels = lc_Labels rep,
       cnt_Image = lc_Image rep, cnt_ImageID = take 12 (lc_ImageID rep),
       cnt_Created = lc_Created rep,
       cnt_Started = (if sint (lc_StartedAt rep) < 0 then -1 else lc_StartedAt rep),
       cnt_Exited = (if sint (lc_ExitedAt rep) < 0 then -1 else lc_ExitedAt rep),
       cnt_ExitCode = lc_ExitCode rep,
       cnt_Ports = go_join '', '' (concat (map port_entries (lc_Ports rep))),
       cnt_State = code_of container_states (go_to_lower (lc_State rep)),
       cnt_Health = code_of container_healths (go_to_lower (lc_Status rep)),
       cnt_RwSize = (case sz of Some sz \<Rightarrow> rwSize sz | None \<Rightarrow> 0),
       cnt_RootFsSize = (case sz of Some sz \<Rightarrow> rootFsSize sz | None \<Rightarrow> 0)\<rparr>)"

lemma container_of_eq:
  "container_of m rep =
     (if lc_Names rep \<noteq> [] then Ok (listed_container m rep) else Panic (IndexOutOfRange 0 0))"
  by (cases "lc_Names rep"; cases "cache_lookup m (take 12 (lc_ID rep))")
     (simp_all add: container_of_def listed_container_def Let_def getID_take conReporter_ports_join
        state_codes clamp_time_def word_sless_alt)

lemma Containers_eq:
  "cacheError c = None \<Longrightarrow>
     Containers (Inr reports) c =
       (if list_all (\<lambda>r. lc_Names r \<noteq> []) reports
        then Ok (map (listed_container (cache c)) reports) else Panic (IndexOutOfRange 0 0))"
  by (simp add: Containers_def traverse_uniform [OF container_of_eq])

lemma put_sizes_eq:
  "cache c = Some m \<Longrightarrow>
     put_sizes reports c =
       Ok (c\<lparr>cache := Some (m ++ map_of (rev (map (\<lambda>r. (getID (lc_ID r), size_of_container r)) reports)))\<rparr>)"
proof (induction reports arbitrary: c m)
  case Nil
  then show ?case by simp
next
  case (Cons r rs)
  let ?k = "getID (lc_ID r)"
  have "put_sizes rs (c\<lparr>cache := Some (m(?k \<mapsto> size_of_container r))\<rparr>) =
      Ok (c\<lparr>cache := Some (m(?k \<mapsto> size_of_container r) ++
        map_of (rev (map (\<lambda>r. (getID (lc_ID r), size_of_container r)) rs)))\<rparr>)"
    using Cons.IH [of "c\<lparr>cache := Some (m(?k \<mapsto> size_of_container r))\<rparr>"] by simp
  with Cons.prems show ?case
    by (simp add: cache_put_def map_of_append [symmetric] map_add_assoc)
qed

text \<open>What a history of refreshes leaves: the last error, and the last size reported of each container.\<close>

definition last_error :: "(go_error + list_container list) list \<Rightarrow> go_error option \<Rightarrow> go_error option" where
  "last_error = fold (\<lambda>a err. case a of Inl e \<Rightarrow> Some e | Inr _ \<Rightarrow> err)"

definition reported :: "(go_error + list_container list) list \<Rightarrow> list_container list" where
  "reported hist = concat (map (case_sum (\<lambda>_. []) id) hist)"

lemma last_error_None: "last_error hist None = None \<longleftrightarrow> list_all (Not \<circ> isl) hist"
  by (induction hist rule: rev_induct) (auto simp: last_error_def split: sum.splits)

lemma last_error_sticky: "last_error hist (Some e) \<noteq> None"
  by (induction hist arbitrary: e) (auto simp: last_error_def split: sum.splits)

lemma refresh_all_eq:
  "cache c = Some m \<Longrightarrow>
     refresh_all hist c =
       Ok \<lparr>cacheError = last_error hist (cacheError c),
           cache = Some (m ++ map_of (rev (map (\<lambda>r. (getID (lc_ID r), size_of_container r)) (reported hist))))\<rparr>"
proof (induction hist arbitrary: c m)
  case (Cons a hist)
  then show ?case
    by (cases a) (simp_all add: updateContainerSize_def put_sizes_eq last_error_def reported_def)
qed (simp add: last_error_def reported_def)

lemma map_of_rev_find:
  "map_of (rev (map (\<lambda>x. (f x, g x)) xs)) k = map_option g (find (\<lambda>x. f x = k) (rev xs))"
  by (induction xs rule: rev_induct) auto

text \<open>Once \<open>SetupRegistry\<close> has made the map, no refresh panics.\<close>

lemma updateContainerSize_total:
  "cache c \<noteq> None \<Longrightarrow> \<exists>c'. updateContainerSize r c = Ok c' \<and> cache c' \<noteq> None"
  by (cases r) (auto simp: updateContainerSize_def put_sizes_eq)

end
