(* ===== verification/Coll_Container.thy ===== *)
theory Coll_Container
  imports Coll_Core Pdcs_Container
begin

text \<open>
  \<open>collector/container.go\<close>: the container collector. A container contributes three blocks: its info
  metric, eight metrics of its state (\<open>updateInfo\<close>) and, when statistics were reported for it,
  fifteen metrics of its resource usage (\<open>updateStats\<close>). The variable \<open>defaultContainersLabel\<close> of
  \<open>Update\<close> is carried through the loop, since with enhanced metrics the code overwrites it.
\<close>

datatype container_field =
    CInfo | CState | CHealth | CCreated | CStarted | CExited | CExitCode | CPids | CCpu | CCpuSystem
  | CMemUsage | CMemLimit | CNetInput | CNetInputDropped | CNetInputErrors | CNetInputPackets
  | CNetOutput | CNetOutputDropped | CNetOutputErrors | CNetOutputPackets | CBlockInput
  | CBlockOutput | CRwSize | CRootFsSize

fun container_value_type :: "container_field \<Rightarrow> value_type" where
  "container_value_type CCpu = CounterValue"
| "container_value_type CCpuSystem = CounterValue"
| "container_value_type CNetInput = CounterValue"
| "container_value_type CNetInputDropped = CounterValue"
| "container_value_type CNetInputErrors = CounterValue"
| "container_value_type CNetInputPackets = CounterValue"
| "container_value_type CNetOutput = CounterValue"
| "container_value_type CNetOutputDropped = CounterValue"
| "container_value_type CNetOutputErrors = CounterValue"
| "container_value_type CNetOutputPackets = CounterValue"
| "container_value_type CBlockInput = CounterValue"
| "container_value_type CBlockOutput = CounterValue"
| "container_value_type _ = GaugeValue"

definition NewContainerStatsCollector :: "container_field collector" where
  "NewContainerStatsCollector = (\<lambda>f. \<lparr>td_desc = None, td_type = container_value_type f\<rparr>)"

lemma NewContainerStatsCollector_type [simp]: "td_type (NewContainerStatsCollector f) = container_value_type f"
  by (simp add: NewContainerStatsCollector_def)

section \<open>Descriptors\<close>

definition info_table :: "(container_field \<times> string \<times> string) list" where
  "info_table = [(CInfo, ''info'', ''Container information.'')]"

definition updateInfo_table :: "(container_field \<times> string \<times> string) list" where
  "updateInfo_table =
     [(CState, ''state'',
       ''Container current state (-1=unknown,0=created,1=initialized,2=running,3=stopped,4=paused,5=exited,6=removing,7=stopping).''),
      (CHealth, ''health'',
       ''Container current health (-1=unknown,0=healthy,1=unhealthy,2=starting).''),
      (CCreated, ''created_seconds'', ''Container creation time in unixtime.''),
      (CStarted, ''started_seconds'', ''Container started time in unixtime.''),
      (CExited, ''exited_seconds'', ''Container exited time in unixtime.''),
      (CExitCode, ''exit_code'',
       ''Container exit code, if the container has not exited or restarted then the exit code will be 0.''),
      (CRwSize, ''rw_size_bytes'', ''Container top read-write layer size in bytes.''),
      (CRootFsSize, ''rootfs_size_bytes'', ''Container root filesystem size in bytes.'')]"

definition updateStats_table :: "(container_field \<times> string \<times> string) list" where
  "updateStats_table =
     [(CPids, ''pids'', ''Container pid number.''),
      (CCpu, ''cpu_seconds_total'', ''total CPU time spent for container in seconds.''),
      (CCpuSystem, ''cpu_system_seconds_total'',
       ''total system CPU time spent for container in seconds.''),
      (CMemUsage, ''mem_usage_bytes'', ''Container memory usage.''),
      (CMemLimit, ''mem_limit_bytes'', ''Container memory limit.''),
      (CNetInput, ''net_input_total'', ''Container network input in bytes.''),
      (CNetInputDropped, ''net_input_dropped_total'', ''Container network input dropped.''),
      (CNetInputErrors, ''net_input_errors_total'', ''Container network input errors.''),
      (CNetInputPackets, ''net_input_packets_total'', ''Container network input packets.''),
      (CNetOutput, ''net_output_total'', ''Container network output in bytes.''),
      (CNetOutputDropped, ''net_output_dropped_total'', ''Container network output dropped.''),
      (CNetOutputErrors, ''net_output_errors_total'', ''Container network output errors.''),
      (CNetOutputPackets, ''net_output_packets_total'', ''Container network output packets.''),
      (CBlockInput, ''block_input_total'', ''Container block input in bytes.''),
      (CBlockOutput, ''block_output_total'', ''Container block output in bytes.'')]"

section \<open>Labels\<close>

definition container_label_values :: "Container \<Rightarrow> string list" where
  "container_label_values rep =
     [cnt_ID rep, cnt_Name rep, cnt_Image rep, cnt_ImageID rep, cnt_Ports rep, cnt_PodID rep,
      cnt_PodName rep]"

text \<open>The names and the values of the labels of one object.\<close>

type_synonym containerDescLabels = "string list \<times> string list"

definition getContainerDescLabel :: "label_vars \<Rightarrow> Container \<Rightarrow> containerDescLabels" where
  "getContainerDescLabel v rep =
     (let containerLabels = containerDefaultLabels;
          containerLabelsValue = container_label_values rep;
          (extraLabels, extraValues) =
            getExtraLabelsAndValues v containerLabels (cnt_Labels rep)
      in (containerLabels @ extraLabels, containerLabelsValue @ extraValues))"

fun getContainerStat :: "string \<Rightarrow> ContainerStat list \<Rightarrow> ContainerStat option" where
  "getContainerStat containerID [] = None"
| "getContainerStat containerID (cstat # statReport) =
     (if st_ID cstat = containerID then Some cstat else getContainerStat containerID statReport)"

section \<open>Update\<close>

definition container_basic_values :: "Container \<Rightarrow> string list" where
  "container_basic_values rep = [cnt_ID rep, cnt_PodID rep, cnt_PodName rep]"

definition updateInfo ::
  "Container \<Rightarrow> string list \<Rightarrow> string list \<Rightarrow> bool \<Rightarrow> container_field blk" where
  "updateInfo rep labelsValue defaultLabels enhance =
     (descs ''container'' updateInfo_table defaultLabels,
      sends (if enhance then labelsValue else container_basic_values rep)
        [(CState, f64_of_int (cnt_State rep)),
         (CHealth, f64_of_int (cnt_Health rep)),
         (CCreated, f64_of_int64 (cnt_Created rep)),
         (CStarted, f64_of_int64 (cnt_Started rep)),
         (CExited, f64_of_int64 (cnt_Exited rep)),
         (CExitCode, f64_of_int (sint (cnt_ExitCode rep))),
         (CRwSize, f64_of_int64 (cnt_RwSize rep)),
         (CRootFsSize, f64_of_int64 (cnt_RootFsSize rep))])"

definition stat_values :: "ContainerStat \<Rightarrow> (container_field \<times> f64) list" where
  "stat_values st =
     [(CPids, f64_of_uint64 (st_PIDs st)),
      (CCpu, st_CPU st),
      (CCpuSystem, st_CPUSystem st),
      (CMemUsage, f64_of_uint64 (st_MemUsage st)),
      (CMemLimit, f64_of_uint64 (st_MemLimit st)),
      (CNetInput, f64_of_uint64 (st_NetInput st)),
      (CNetInputDropped, f64_of_uint64 (st_NetInputDropped st)),
      (CNetInputErrors, f64_of_uint64 (st_NetInputErrors st)),
      (CNetInputPackets, f64_of_uint64 (st_NetInputPackets st)),
      (CNetOutput, f64_of_uint64 (st_NetOutput st)),
      (CNetOutputDropped, f64_of_uint64 (st_NetOutputDropped st)),
      (CNetOutputErrors, f64_of_uint64 (st_NetOutputErrors st)),
      (CNetOutputPackets, f64_of_uint64 (st_NetOutputPackets st)),
      (CBlockInput, f64_of_uint64 (st_BlockInput st)),
      (CBlockOutput, f64_of_uint64 (st_BlockOutput st))]"

definition updateStats ::
  "Container \<Rightarrow> ContainerStat option \<Rightarrow> string list \<Rightarrow> string list \<Rightarrow> bool \<Rightarrow>
     container_field blk" where
  "updateStats rep cntStat labelsValue defaultLabels enhance =
     (descs ''container'' updateStats_table defaultLabels,
      (case cntStat of
         None \<Rightarrow> sends [] []
       | Some st \<Rightarrow>
           sends (if enhance then labelsValue else container_basic_values rep) (stat_values st)))"

text \<open>The loop of \<open>Update\<close>.\<close>

fun container_loop ::
  "label_vars \<Rightarrow> ContainerStat list \<Rightarrow> string list \<Rightarrow> Container list \<Rightarrow> container_field instr list"
  where
  "container_loop v statReports defaultContainersLabel [] = []"
| "container_loop v statReports defaultContainersLabel (rep # reports) =
     (let (labels, labelsValue) = getContainerDescLabel v rep;
          defaultContainersLabel =
            (if enhanceAllMetrics v then labels else defaultContainersLabel);
          cntStat = getContainerStat (cnt_ID rep) statReports
      in program
           [(descs ''container'' info_table labels, sends labelsValue [(CInfo, 1)]),
            updateInfo rep labelsValue defaultContainersLabel (enhanceAllMetrics v),
            updateStats rep cntStat labelsValue defaultContainersLabel (enhanceAllMetrics v)]
         @ container_loop v statReports defaultContainersLabel reports)"

definition containerCollector_Update ::
  "label_vars \<Rightarrow> Container list outcome \<Rightarrow> go_error + ContainerStat list \<Rightarrow>
     container_field instr list outcome" where
  "containerCollector_Update v containers stats =
     bind_outcome containers (\<lambda>reports.
       case stats of
         Inl e \<Rightarrow> Err e
       | Inr statReports \<Rightarrow>
           Ok (container_loop v statReports [''id'', ''pod_id'', ''pod_name''] reports))"

section \<open>The update as a row collector\<close>

lemma container_tables_ok:
  "table_ok ''container'' info_table" "table_ok ''container'' updateInfo_table"
  "table_ok ''container'' updateStats_table"
  by code_simp+

text \<open>The labels of the metrics other than info.\<close>

definition container_metric_labels :: "label_vars \<Rightarrow> Container \<Rightarrow> string list" where
  "container_metric_labels v rep =
     (if enhanceAllMetrics v then fst (getContainerDescLabel v rep)
      else [''id'', ''pod_id'', ''pod_name''])"

definition container_blocks ::
  "label_vars \<Rightarrow> ContainerStat list \<Rightarrow> Container \<Rightarrow> container_field blk list" where
  "container_blocks v stats rep =
     [(descs ''container'' info_table (fst (getContainerDescLabel v rep)),
       sends (snd (getContainerDescLabel v rep)) [(CInfo, 1)]),
      updateInfo rep (snd (getContainerDescLabel v rep)) (container_metric_labels v rep)
        (enhanceAllMetrics v),
      updateStats rep (getContainerStat (cnt_ID rep) stats) (snd (getContainerDescLabel v rep))
        (container_metric_labels v rep) (enhanceAllMetrics v)]"

lemma container_loop_eq:
  "enhanceAllMetrics v \<or> d = [''id'', ''pod_id'', ''pod_name''] \<Longrightarrow>
     container_loop v stats d reps = program (concat (map (container_blocks v stats) reps))"
proof (induction reps arbitrary: d)
  case (Cons rep reps)
  obtain ls vs where l: "getContainerDescLabel v rep = (ls, vs)" by fastforce
  have "container_loop v stats (if enhanceAllMetrics v then ls else d) reps =
      program (concat (map (container_blocks v stats) reps))"
    using Cons.prems by (intro Cons.IH) auto
  moreover have "(if enhanceAllMetrics v then ls else d) = container_metric_labels v rep"
    using Cons.prems l by (auto simp: container_metric_labels_def)
  moreover have "container_blocks v stats rep =
      [(descs ''container'' info_table ls, sends vs [(CInfo, 1)]),
       updateInfo rep vs (container_metric_labels v rep) (enhanceAllMetrics v),
       updateStats rep (getContainerStat (cnt_ID rep) stats) vs (container_metric_labels v rep)
         (enhanceAllMetrics v)]"
    by (simp add: container_blocks_def l)
  ultimately show ?case
    by (simp only: container_loop.simps l Let_def prod.case list.map concat.simps program_simps(3))
qed simp

text \<open>
  A container is acceptable when its labels are: the kept ones have valid, distinct names that
  differ from the defaults, and every label value is valid UTF-8.
\<close>

definition container_ok :: "label_vars \<Rightarrow> Container \<Rightarrow> bool" where
  "container_ok v rep \<longleftrightarrow>
     extras_ok v containerDefaultLabels (cnt_Labels rep) \<and>
     values_ok (container_label_values rep) \<and>
     list_all (\<lambda>(_, x). valid_utf8 x) (kept v containerDefaultLabels (cnt_Labels rep))"

interpretation container_labels: label_scheme
  containerDefaultLabels container_label_values cnt_Labels
  by unfold_locales (code_simp, simp add: container_label_values_def containerDefaultLabels_def)

lemma getContainerDescLabel_eq:
  "getContainerDescLabel v rep =
     (full_labels v containerDefaultLabels (cnt_Labels rep),
      full_values v containerDefaultLabels (container_label_values rep) (cnt_Labels rep))"
  by (simp add: getContainerDescLabel_def full_labels_def full_values_def split_beta Let_def)

lemma basic_labels_ok: "label_names_ok [''id'', ''pod_id'', ''pod_name'']"
  by code_simp

lemma container_info_ok:
  "label_names_ok (fst (getContainerDescLabel v rep)) \<and>
   length (snd (getContainerDescLabel v rep)) = length (fst (getContainerDescLabel v rep)) \<and>
   values_ok (snd (getContainerDescLabel v rep)) \<longleftrightarrow> container_ok v rep"
  by (auto simp: getContainerDescLabel_eq container_ok_def container_labels.arity
      container_labels.values_ok_iff full_labels_ok_iff [OF container_labels.defaults_ok])

lemma container_metric_ok:
  "container_ok v rep \<Longrightarrow>
   label_names_ok (container_metric_labels v rep) \<and>
   length (if enhanceAllMetrics v then snd (getContainerDescLabel v rep)
           else container_basic_values rep) = length (container_metric_labels v rep) \<and>
   values_ok (if enhanceAllMetrics v then snd (getContainerDescLabel v rep)
           else container_basic_values rep)"
proof (cases "enhanceAllMetrics v")
  case True
  then show "container_ok v rep \<Longrightarrow> ?thesis"
    using container_info_ok [of v rep] by (simp add: container_metric_labels_def)
next
  case False
  then show "container_ok v rep \<Longrightarrow> ?thesis"
    using basic_labels_ok
    by (auto simp: container_metric_labels_def container_ok_def values_ok_def
        container_label_values_def container_basic_values_def)
qed

lemma stat_values_fields: "fst ` set (stat_values st) \<subseteq> fst ` set updateStats_table"
  by (simp add: updateStats_table_def stat_values_def)

lemma container_blocks_wf: "list_all blk_wf (container_blocks v stats rep)"
proof -
  have "blk_wf (updateInfo rep vs ls e)" for vs ls e
    unfolding updateInfo_def blk_pair
    by (intro block_wf_table container_tables_ok) (simp add: updateInfo_table_def)
  moreover have "blk_wf (updateStats rep s vs ls e)" for s vs ls e
    unfolding updateStats_def blk_pair
    by (cases s; simp only: option.case; intro block_wf_table container_tables_ok)
       (simp_all add: stat_values_fields)
  moreover have "block_wf (descs ''container'' info_table ls) (sends vs [(CInfo, 1)])" for ls vs
    by (intro block_wf_table container_tables_ok) (simp add: info_table_def)
  ultimately show ?thesis by (simp add: container_blocks_def)
qed

lemma container_blocks_ok: "list_all blk_ok (container_blocks v stats rep) \<longleftrightarrow> container_ok v rep"
proof -
  let ?i = "getContainerDescLabel v rep"
  have sub: "fst ` set [(CInfo, 1 :: f64)] \<subseteq> fst ` set info_table" by (simp add: info_table_def)
  have info: "block_ok (descs ''container'' info_table (fst ?i)) (sends (snd ?i) [(CInfo, 1)])
      \<longleftrightarrow> container_ok v rep"
    using block_ok_table [OF container_tables_ok(1) sub, of "fst ?i" "snd ?i"]
    by (simp add: container_info_ok [symmetric])
  have "container_ok v rep \<Longrightarrow>
      blk_ok (updateInfo rep (snd ?i) (container_metric_labels v rep) (enhanceAllMetrics v))"
    unfolding updateInfo_def blk_pair
    by (intro block_ok_tableI container_tables_ok container_metric_ok)
       (simp_all add: updateInfo_table_def)
  moreover have "container_ok v rep \<Longrightarrow>
      blk_ok (updateStats rep s (snd ?i) (container_metric_labels v rep) (enhanceAllMetrics v))" for s
  proof (cases s)
    case None
    then show ?thesis by (simp add: updateStats_def)
  next
    case (Some st)
    then show "container_ok v rep \<Longrightarrow> ?thesis"
      unfolding updateStats_def blk_pair option.case
      by (simp only: option.case, intro block_ok_tableI container_tables_ok container_metric_ok)
         (simp_all add: stat_values_fields)
  qed
  ultimately show ?thesis by (auto simp: container_blocks_def info)
qed

interpretation container_rows: row_collector
  container_value_type "container_blocks v stats" "container_ok v"
  for v stats
  by unfold_locales (simp_all add: container_blocks_wf container_blocks_ok)

section \<open>The samples of a container\<close>

definition container_state_samples :: "(string \<times> string) list \<Rightarrow> Container \<Rightarrow> sample list" where
  "container_state_samples ls rep =
     [(''podman_container_state'', GaugeValue, ls, f64_of_int (cnt_State rep)),
      (''podman_container_health'', GaugeValue, ls, f64_of_int (cnt_Health rep)),
      (''podman_container_created_seconds'', GaugeValue, ls, f64_of_int64 (cnt_Created rep)),
      (''podman_container_started_seconds'', GaugeValue, ls, f64_of_int64 (cnt_Started rep)),
      (''podman_container_exited_seconds'', GaugeValue, ls, f64_of_int64 (cnt_Exited rep)),
      (''podman_container_exit_code'', GaugeValue, ls, f64_of_int (sint (cnt_ExitCode rep))),
      (''podman_container_rw_size_bytes'', GaugeValue, ls, f64_of_int64 (cnt_RwSize rep)),
      (''podman_container_rootfs_size_bytes'', GaugeValue, ls, f64_of_int64 (cnt_RootFsSize rep))]"

definition container_usage_samples :: "(string \<times> string) list \<Rightarrow> ContainerStat \<Rightarrow> sample list" where
  "container_usage_samples ls st =
     [(''podman_container_pids'', GaugeValue, ls, f64_of_uint64 (st_PIDs st)),
      (''podman_container_cpu_seconds_total'', CounterValue, ls, st_CPU st),
      (''podman_container_cpu_system_seconds_total'', CounterValue, ls, st_CPUSystem st),
      (''podman_container_mem_usage_bytes'', GaugeValue, ls, f64_of_uint64 (st_MemUsage st)),
      (''podman_container_mem_limit_bytes'', GaugeValue, ls, f64_of_uint64 (st_MemLimit st)),
      (''podman_container_net_input_total'', CounterValue, ls, f64_of_uint64 (st_NetInput st)),
      (''podman_container_net_input_dropped_total'', CounterValue, ls,
       f64_of_uint64 (st_NetInputDropped st)),
      (''podman_container_net_input_errors_total'', CounterValue, ls,
       f64_of_uint64 (st_NetInputErrors st)),
      (''podman_container_net_input_packets_total'', CounterValue, ls,
       f64_of_uint64 (st_NetInputPackets st)),
      (''podman_container_net_output_total'', CounterValue, ls, f64_of_uint64 (st_NetOutput st)),
      (''podman_container_net_output_dropped_total'', CounterValue, ls,
       f64_of_uint64 (st_NetOutputDropped st)),
      (''podman_container_net_output_errors_total'', CounterValue, ls,
       f64_of_uint64 (st_NetOutputErrors st)),
      (''podman_container_net_output_packets_total'', CounterValue, ls,
       f64_of_uint64 (st_NetOutputPackets st)),
      (''podman_container_block_input_total'', CounterValue, ls, f64_of_uint64 (st_BlockInput st)),
      (''podman_container_block_output_total'', CounterValue, ls, f64_of_uint64 (st_BlockOutput st))]"

definition container_samples :: "label_vars \<Rightarrow> ContainerStat list \<Rightarrow> Container \<Rightarrow> sample list" where
  "container_samples v stats rep =
     (let info_labels =
            label_pairs (full_labels v containerDefaultLabels (cnt_Labels rep))
              (full_values v containerDefaultLabels (container_label_values rep) (cnt_Labels rep));
          labels = (if enhanceAllMetrics v then info_labels
                    else label_pairs [''id'', ''pod_id'', ''pod_name''] (container_basic_values rep))
      in [(''podman_container_info'', GaugeValue, info_labels, 1)]
         @ container_state_samples labels rep
         @ (case getContainerStat (cnt_ID rep) stats of
              None \<Rightarrow> [] | Some st \<Rightarrow> container_usage_samples labels st))"

lemma container_info_samples:
  "map sample (block_metrics container_value_type (descs ''container'' info_table ls)
     (sends vs [(CInfo, 1)])) = [(''podman_container_info'', GaugeValue, label_pairs ls vs, 1)]"
  by (subst samples_table) (simp_all add: info_table_def BuildFQName_def namespace_def)

lemma container_state_samples:
  "map sample (program_metrics container_value_type [updateInfo rep vs ls e]) =
     container_state_samples (label_pairs ls (if e then vs else container_basic_values rep)) rep"
  unfolding updateInfo_def program_metrics_simps append_Nil2
  by (subst samples_table)
     (simp_all add: updateInfo_table_def BuildFQName_def namespace_def container_state_samples_def)

lemma container_usage_samples:
  "map sample (program_metrics container_value_type [updateStats rep s vs ls e]) =
     (case s of None \<Rightarrow> [] | Some st \<Rightarrow>
        container_usage_samples (label_pairs ls (if e then vs else container_basic_values rep)) st)"
proof (cases s)
  case (Some st)
  show ?thesis
    unfolding updateStats_def program_metrics_simps append_Nil2 Some option.case
    by (simp only: samples_table [OF stat_values_fields])
       (simp add: updateStats_table_def stat_values_def BuildFQName_def namespace_def
         container_usage_samples_def)
qed (simp add: updateStats_def sends_def block_metrics_def)

lemma program_metrics_three:
  "program_metrics ty [(ds, ss), b, c] =
     block_metrics ty ds ss @ program_metrics ty [b] @ program_metrics ty [c]"
  by (cases b; cases c) simp

lemma container_blocks_samples:
  "map sample (program_metrics container_value_type (container_blocks v stats rep)) =
     container_samples v stats rep"
  unfolding container_blocks_def program_metrics_three map_append container_info_samples
    container_state_samples container_usage_samples
  by (simp add: container_samples_def Let_def getContainerDescLabel_eq container_metric_labels_def
      split: option.splits)

interpretation container_scrape: sampled_collector
  container_value_type "container_blocks v stats" "container_ok v" "container_samples v stats"
  for v stats
  by unfold_locales (rule container_blocks_samples)

lemma getContainerStat_find:
  "getContainerStat i (map stat_of stats) =
     map_option stat_of (find (\<lambda>s. take 12 (cs_ContainerID s) = i) stats)"
  by (induction stats) (simp_all add: stat_of_def getID_take)

end
