(* ===== verification/Pdcs_Cache.thy ===== *)
theory Pdcs_Cache
  imports Go_Runtime
begin

text \<open>
  The contract of a cached report: the image report and the disk usage report keep the answer of
  the last refresh under a mutex, and the collectors read it. A refresh replaces whatever was
  there: a reader sees the value built from the last answer, or its error.
\<close>

locale report_cache =
  fixes refresh :: "go_error + 'rep \<Rightarrow> 's \<Rightarrow> 's"
    and read :: "'s \<Rightarrow> go_error + 'v"
    and build :: "'rep \<Rightarrow> 'v"
  assumes refresh_ok: "read (refresh (Inr r) s) = Inr (build r)"
    and refresh_err: "read (refresh (Inl e) s) = Inl e"
begin

lemma read_refresh: "read (refresh a s) = map_sum id build a"
  by (cases a) (simp_all add: refresh_ok refresh_err)

text \<open>After any history of refreshes a reader sees exactly the last answer.\<close>

lemma read_history: "hs \<noteq> [] \<Longrightarrow> read (fold refresh hs s) = map_sum id build (last hs)"
  by (induction hs arbitrary: s) (auto simp: read_refresh)

lemma recovers_from_errors: "read (fold refresh (hs @ [Inr r]) s) = Inr (build r)"
  by (simp add: refresh_ok)

end

text \<open>The same with the state the package variable starts in.\<close>

locale initialised_report_cache = report_cache +
  fixes init :: 's
    and zero :: 'v
  assumes read_init: "read init = Inr zero"
begin

lemma read_from_init:
  "read (fold refresh hs init) = (if hs = [] then Inr zero else map_sum id build (last hs))"
  by (simp add: read_init read_history)

end

end
