(* ===== verification/List_Facts.thy ===== *)
theory List_Facts
  imports Main "HOL-Library.Sublist" "HOL-Library.Multiset"
begin

text \<open>
  Generic facts on lists that several components share. \<open>first_by f xs\<close> keeps of every group of
  elements with the same \<open>f\<close> the first: it is the reference definition for the two loops of the
  program that skip what a map says was seen before.
\<close>

named_theorems first_by

fun first_by :: "('a \<Rightarrow> 'k) \<Rightarrow> 'a list \<Rightarrow> 'a list" where
  "first_by f [] = []"
| "first_by f (x # xs) = x # filter (\<lambda>y. f y \<noteq> f x) (first_by f xs)"

lemma first_by_image [first_by]: "f ` set (first_by f xs) = f ` set xs"
proof (induction xs)
  case (Cons x xs)
  have "f ` set (first_by f (x # xs)) = insert (f x) (f ` set (first_by f xs) - {f x})"
    by auto
  with Cons show ?case by auto
qed simp

lemma first_by_distinct [first_by]: "distinct (map f (first_by f xs))"
  by (induction xs) (auto simp: distinct_map_filter)

lemma first_by_subseq [first_by]: "subseq (first_by f xs) xs"
  by (induction xs) (auto intro: subseq_order.trans [OF subseq_filter_left])

lemma first_by_subset: "set (first_by f xs) \<subseteq> set xs"
  by (induction xs) auto

lemma first_by_id: "distinct (map f xs) \<Longrightarrow> first_by f xs = xs"
proof (induction xs)
  case (Cons x xs)
  from Cons.prems have "\<forall>y \<in> set xs. f y \<noteq> f x" by (metis distinct.simps(2) image_eqI list.set_map list.simps(9))
  then have "filter (\<lambda>y. f y \<noteq> f x) xs = xs" by (simp add: filter_id_conv)
  with Cons show ?case by simp
qed simp

lemma first_by_find: "find (\<lambda>y. f y = k) (first_by f xs) = find (\<lambda>y. f y = k) xs"
proof (induction xs)
  case (Cons x xs)
  have "find (\<lambda>y. f y = k) (filter (\<lambda>y. f y \<noteq> f x) ys) = find (\<lambda>y. f y = k) ys" if "f x \<noteq> k" for ys
    using that by (induction ys) auto
  with Cons show ?case by simp
qed simp

lemma first_by_idem: "first_by f (first_by f xs) = first_by f xs"
  by (intro first_by_id first_by_distinct)

lemma first_by_append:
  "first_by f (xs @ ys) = first_by f xs @ filter (\<lambda>y. f y \<notin> f ` set xs) (first_by f ys)"
  by (induction xs) (auto intro!: filter_cong)

text \<open>A loop with a set of seen keys computes \<open>first_by\<close>.\<close>

lemma seen_loop_first_by:
  assumes "\<And>seen. loop seen [] = []"
    and "\<And>seen x xs. loop seen (x # xs) =
       (if f x \<in> seen then loop seen xs else x # loop (insert (f x) seen) xs)"
  shows "loop seen xs = filter (\<lambda>y. f y \<notin> seen) (first_by f xs)"
proof (induction xs arbitrary: seen)
  case (Cons x xs)
  have "filter (\<lambda>y. f y \<notin> seen) (first_by f xs) =
      filter (\<lambda>y. f y \<notin> seen) (filter (\<lambda>y. f y \<noteq> f x) (first_by f xs))" if "f x \<in> seen"
    using that by (auto intro: filter_cong)
  then show ?case by (auto simp: assms(2) Cons.IH intro!: filter_cong)
qed (simp add: assms(1))

lemma list_all2_map_eq: "list_all2 (\<lambda>x y. y = f x) xs ys \<longleftrightarrow> ys = map f xs"
  by (induction xs arbitrary: ys) (auto simp: list_all2_Cons1)

lemma sum_list_nonneg_filter:
  "(\<forall>x \<in> set xs. 0 \<le> f x) \<Longrightarrow> sum_list (map f (filter P xs)) \<le> (sum_list (map f xs) :: int)"
  by (induction xs) auto

end
