(* ===== verification/Pdcs_Image.thy ===== *)
theory Pdcs_Image
  imports Pdcs_Utils Pdcs_Cache List_Facts
begin

text \<open>
  \<open>pdcs/image.go\<close>: the cached image report. The image engine's answer is a parameter, and so is
  \<open>reference.Parse\<close> of the container image library: a function \<open>parse\<close> from a reference to an
  error or to what its type assertions to \<open>Named\<close> and \<open>Tagged\<close> show. \<open>Images\<close> and \<open>updateImages\<close>
  hold \<open>repLock\<close> while they touch the report, so they are atomic on it.
\<close>

section \<open>Data\<close>

record Image =
  img_ID :: string
  img_ParentID :: string
  img_Repository :: string
  img_Tag :: string
  img_Created :: int64
  img_Size :: int64
  img_Digest :: string
  img_Labels :: go_map

record ImageReport =
  images :: "Image list"
  updateErr :: "go_error option"

definition initial_imageRep :: ImageReport where
  "initial_imageRep = \<lparr>images = [], updateErr = None\<rparr>"

text \<open>The fields of the engine's image summary that the code reads.\<close>

record image_summary =
  is_ID :: string
  is_ParentId :: string
  is_RepoTags :: "string list"
  is_Created :: int64
  is_Size :: int64
  is_Digest :: string
  is_Labels :: go_map

text \<open>A parsed reference: its name when it is \<open>Named\<close>, its tag when it is also \<open>Tagged\<close>.\<close>

datatype parsed_ref = NotNamed | NamedRef string | TaggedRef string string

type_synonym ref_parser = "string \<Rightarrow> go_error + parsed_ref"

section \<open>Operations\<close>

definition Images :: "ImageReport \<Rightarrow> go_error + Image list" where
  "Images r = (case updateErr r of Some e \<Rightarrow> Inl e | None \<Rightarrow> Inr (images r))"

definition noneReference :: string where
  "noneReference = ''<none>''"

definition repoTagDecompose :: "ref_parser \<Rightarrow> string \<Rightarrow> string \<times> string" where
  "repoTagDecompose parse repoTags =
     (let noneName = noneReference @ '':'' @ noneReference in
      if repoTags = noneName then (noneReference, noneReference)
      else (case parse repoTags of
          Inl _ \<Rightarrow> (noneReference, noneReference)
        | Inr NotNamed \<Rightarrow> (repoTags, noneReference)
        | Inr (NamedRef name) \<Rightarrow> (if name = [] then noneReference else name, noneReference)
        | Inr (TaggedRef name tag) \<Rightarrow>
            (if name = [] then noneReference else name, if tag = [] then noneReference else tag)))"

definition image_key :: "Image \<Rightarrow> string" where
  "image_key img =
     img_ID img @ [CHR 0x00] @ img_ParentID img @ [CHR 0x00] @ img_Repository img @ [CHR 0x00]
     @ img_Tag img @ [CHR 0x00] @ img_Digest img"

fun dedup_loop :: "string set \<Rightarrow> Image list \<Rightarrow> Image list" where
  "dedup_loop seen [] = []"
| "dedup_loop seen (img # imgs) =
     (let key = image_key img in
      if key \<in> seen then dedup_loop seen imgs
      else img # dedup_loop (insert key seen) imgs)"

definition dedupImages :: "Image list \<Rightarrow> Image list" where
  "dedupImages imgs = dedup_loop {} imgs"

text \<open>The entries of one report: one for each tag, or one without a name.\<close>

definition images_of_summary :: "ref_parser \<Rightarrow> image_summary \<Rightarrow> Image list" where
  "images_of_summary parse rep =
     (if 0 < length (is_RepoTags rep)
      then map (\<lambda>repoTag.
             let (repository, tag) = repoTagDecompose parse repoTag in
             \<lparr>img_ID = getID (is_ID rep), img_ParentID = getID (is_ParentId rep),
              img_Repository = repository, img_Tag = tag, img_Created = is_Created rep,
              img_Size = is_Size rep, img_Digest = is_Digest rep, img_Labels = is_Labels rep\<rparr>)
           (is_RepoTags rep)
      else [\<lparr>img_ID = getID (is_ID rep), img_ParentID = getID (is_ParentId rep),
             img_Repository = ''<none>'', img_Tag = ''<none>'', img_Created = is_Created rep,
             img_Size = is_Size rep, img_Digest = is_Digest rep, img_Labels = is_Labels rep\<rparr>])"

definition updateImages ::
  "ref_parser \<Rightarrow> go_error + image_summary list \<Rightarrow> ImageReport \<Rightarrow> ImageReport" where
  "updateImages parse engine r =
     (case engine of
        Inl e \<Rightarrow> r\<lparr>updateErr := Some e, images := []\<rparr>
      | Inr reports \<Rightarrow>
          r\<lparr>updateErr := None,
            images := dedupImages (concat (map (images_of_summary parse) reports))\<rparr>)"

section \<open>Deduplication\<close>

lemma dedupImages_first_by: "dedupImages imgs = first_by image_key imgs"
proof -
  have "dedup_loop seen imgs = filter (\<lambda>i. image_key i \<notin> seen) (first_by image_key imgs)" for seen
    by (rule seen_loop_first_by) (simp_all add: Let_def)
  then show ?thesis by (simp add: dedupImages_def)
qed

lemma dedupImages_facts:
  "distinct (map image_key (dedupImages imgs))"
  "image_key ` set (dedupImages imgs) = image_key ` set imgs"
  "subseq (dedupImages imgs) imgs"
  by (simp_all add: dedupImages_first_by first_by)

text \<open>
  The separator is the zero byte, so the key tells entries apart when no field contains it: that
  is what an identifier, a repository name, a tag and a digest guarantee.
\<close>

definition nul_free :: "Image \<Rightarrow> bool" where
  "nul_free img \<longleftrightarrow>
     CHR 0x00 \<notin> set (img_ID img @ img_ParentID img @ img_Repository img @ img_Tag img @ img_Digest img)"

definition image_label_values :: "Image \<Rightarrow> string list" where
  "image_label_values img =
     [img_ID img, img_ParentID img, img_Repository img, img_Tag img, img_Digest img]"

lemma image_key_join: "image_key img = go_join [CHR 0x00] (image_label_values img)"
  by (simp add: image_key_def image_label_values_def)

lemma image_key_inject:
  assumes "nul_free a" and "nul_free b"
  shows "image_key a = image_key b \<longleftrightarrow> image_label_values a = image_label_values b"
proof
  assume eq: "image_key a = image_key b"
  have split: "go_split CHR 0x00 (image_key i) = image_label_values i" if "nul_free i" for i
    unfolding image_key_join using that
    by (intro go_split_join) (auto simp: image_label_values_def nul_free_def)
  show "image_label_values a = image_label_values b"
    using split [OF assms(1)] split [OF assms(2)] eq by simp
qed (simp add: image_key_join)

section \<open>The report as a cache\<close>

interpretation image_report: initialised_report_cache
  "updateImages parse" Images "\<lambda>reports. dedupImages (concat (map (images_of_summary parse) reports))"
  initial_imageRep "[]"
  for parse
  by unfold_locales (simp_all add: updateImages_def Images_def initial_imageRep_def)

end
