(* ===== verification/Coll_Image.thy ===== *)
theory Coll_Image
  imports Coll_Core Pdcs_Image
begin

text \<open>
  \<open>collector/image.go\<close>: the image collector. Each entry of the report sets the three descriptors
  and sends three metrics; \<open>size\<close> and \<open>created\<close> carry the short labels unless metrics are
  enhanced. The local variable \<open>imgLabels\<close> is carried through the loop, as in the code.
\<close>

datatype image_field = IInfo | ISize | ICreated

definition image_value_type :: "image_field \<Rightarrow> value_type" where
  "image_value_type f = GaugeValue"

definition NewImageStatsCollector :: "image_field collector" where
  "NewImageStatsCollector = (\<lambda>f. \<lparr>td_desc = None, td_type = image_value_type f\<rparr>)"

lemma NewImageStatsCollector_type [simp]: "td_type (NewImageStatsCollector f) = image_value_type f"
  by (simp add: NewImageStatsCollector_def)

definition image_info_table :: "(image_field \<times> string \<times> string) list" where
  "image_info_table = [(IInfo, ''info'', ''Image information.'')]"

definition image_metric_table :: "(image_field \<times> string \<times> string) list" where
  "image_metric_table =
     [(ICreated, ''created_seconds'', ''Image creation time in unixtime.''),
      (ISize, ''size'', ''Image size.'')]"

text \<open>The method is a copy of the container collector's, over the labels of the image.\<close>

definition image_getExtraLabelsAndValues ::
  "label_vars \<Rightarrow> string list \<Rightarrow> Image \<Rightarrow> string list \<times> string list" where
  "image_getExtraLabelsAndValues v collectorLabels rep =
     getExtraLabelsAndValues v collectorLabels (img_Labels rep)"

text \<open>The names and the values of the labels of one object.\<close>

type_synonym imageDescLabels = "string list \<times> string list"

definition getImageDescLabels :: "label_vars \<Rightarrow> Image \<Rightarrow> imageDescLabels" where
  "getImageDescLabels v rep =
     (let imageLabels = imageDescDefaultLabels;
          imageLabelsValue = [img_ID rep, img_ParentID rep, img_Repository rep, img_Tag rep, img_Digest rep];
          (extraLabels, extraValues) = image_getExtraLabelsAndValues v imageLabels rep
      in (imageLabels @ extraLabels, imageLabelsValue @ extraValues))"

fun image_loop :: "label_vars \<Rightarrow> string list \<Rightarrow> Image list \<Rightarrow> image_field instr list" where
  "image_loop v imgLabels [] = []"
| "image_loop v imgLabels (rep # reports) =
     (let (labels, labelsValue) = getImageDescLabels v rep;
          imgLabels = (if enhanceAllMetrics v then labels else imgLabels);
          values = (if enhanceAllMetrics v then labelsValue
                    else [img_ID rep, img_Repository rep, img_Tag rep])
      in block
           (descs ''image'' image_info_table labels @ descs ''image'' image_metric_table imgLabels)
           (sends labelsValue [(IInfo, 1)]
            @ sends values [(ISize, f64_of_int64 (img_Size rep)),
                            (ICreated, f64_of_int64 (img_Created rep))])
         @ image_loop v imgLabels reports)"

definition imageCollector_Update ::
  "label_vars \<Rightarrow> go_error + Image list \<Rightarrow> image_field instr list outcome" where
  "imageCollector_Update v reports =
     (case reports of
        Inl e \<Rightarrow> Err e
      | Inr reports \<Rightarrow> Ok (image_loop v imageDefaultLabels reports))"

section \<open>The update as a row collector\<close>

lemma image_tables_ok:
  "table_ok ''image'' image_info_table" "table_ok ''image'' image_metric_table"
  by code_simp+

definition image_metric_labels :: "label_vars \<Rightarrow> Image \<Rightarrow> string list" where
  "image_metric_labels v rep =
     (if enhanceAllMetrics v then fst (getImageDescLabels v rep) else imageDefaultLabels)"

definition image_metric_values :: "label_vars \<Rightarrow> Image \<Rightarrow> string list" where
  "image_metric_values v rep =
     (if enhanceAllMetrics v then snd (getImageDescLabels v rep)
      else [img_ID rep, img_Repository rep, img_Tag rep])"

definition image_blocks :: "label_vars \<Rightarrow> Image \<Rightarrow> image_field blk list" where
  "image_blocks v rep =
     [two_part_blk ''image'' image_info_table image_metric_table
        (fst (getImageDescLabels v rep)) (image_metric_labels v rep)
        (snd (getImageDescLabels v rep)) (image_metric_values v rep)
        [(IInfo, 1)]
        [(ISize, f64_of_int64 (img_Size rep)), (ICreated, f64_of_int64 (img_Created rep))]]"

lemma image_loop_eq:
  "enhanceAllMetrics v \<or> d = imageDefaultLabels \<Longrightarrow>
     image_loop v d reps = program (concat (map (image_blocks v) reps))"
proof (induction reps arbitrary: d)
  case (Cons rep reps)
  obtain ls vs where l: "getImageDescLabels v rep = (ls, vs)" by fastforce
  have "image_loop v (if enhanceAllMetrics v then ls else d) reps =
      program (concat (map (image_blocks v) reps))"
    using Cons.prems by (intro Cons.IH) auto
  moreover have "(if enhanceAllMetrics v then ls else d) = image_metric_labels v rep"
    using Cons.prems l by (auto simp: image_metric_labels_def)
  moreover have "program (image_blocks v rep) =
      block
        (descs ''image'' image_info_table ls @ descs ''image'' image_metric_table
          (image_metric_labels v rep))
        (sends vs [(IInfo, 1)]
         @ sends (if enhanceAllMetrics v then vs else [img_ID rep, img_Repository rep, img_Tag rep])
             [(ISize, f64_of_int64 (img_Size rep)), (ICreated, f64_of_int64 (img_Created rep))])"
    by (simp add: image_blocks_def two_part_blk_def image_metric_values_def l)
  ultimately show ?case by (simp add: l Let_def)
qed simp

definition image_ok :: "label_vars \<Rightarrow> Image \<Rightarrow> bool" where
  "image_ok v rep \<longleftrightarrow>
     extras_ok v imageDescDefaultLabels (img_Labels rep) \<and>
     values_ok (image_label_values rep) \<and>
     list_all (\<lambda>(_, x). valid_utf8 x) (kept v imageDescDefaultLabels (img_Labels rep))"

interpretation image_labels: label_scheme
  imageDescDefaultLabels image_label_values img_Labels
  by unfold_locales (code_simp, simp add: image_label_values_def imageDescDefaultLabels_def)

lemma getImageDescLabels_eq:
  "getImageDescLabels v rep =
     (full_labels v imageDescDefaultLabels (img_Labels rep),
      full_values v imageDescDefaultLabels (image_label_values rep) (img_Labels rep))"
  by (simp add: getImageDescLabels_def image_getExtraLabelsAndValues_def full_labels_def full_values_def image_label_values_def
      split_beta Let_def)

lemma imageDefaultLabels_ok: "label_names_ok imageDefaultLabels"
  by code_simp

lemma image_info_ok:
  "label_names_ok (fst (getImageDescLabels v rep)) \<and>
   length (snd (getImageDescLabels v rep)) = length (fst (getImageDescLabels v rep)) \<and>
   values_ok (snd (getImageDescLabels v rep)) \<longleftrightarrow> image_ok v rep"
  by (auto simp: getImageDescLabels_eq image_ok_def image_labels.arity
      image_labels.values_ok_iff full_labels_ok_iff [OF image_labels.defaults_ok])

lemma image_metric_ok:
  "label_names_ok (fst (getImageDescLabels v rep)) \<and>
   length (snd (getImageDescLabels v rep)) = length (fst (getImageDescLabels v rep)) \<and>
   values_ok (snd (getImageDescLabels v rep)) \<Longrightarrow>
   label_names_ok (image_metric_labels v rep) \<and>
   length (image_metric_values v rep) = length (image_metric_labels v rep) \<and>
   values_ok (image_metric_values v rep)"
  unfolding image_info_ok using image_info_ok [of v rep] imageDefaultLabels_ok
  by (auto simp: image_metric_labels_def image_metric_values_def image_ok_def values_ok_def
      image_label_values_def imageDefaultLabels_def)

lemma image_parts:
  "fst ` set [(IInfo, 1 :: f64)] \<subseteq> fst ` set image_info_table"
  "fst ` set [(ISize, a :: f64), (ICreated, b :: f64)] \<subseteq> fst ` set image_metric_table"
  "fst ` set image_info_table \<inter> fst ` set image_metric_table = {}"
  by (simp_all add: image_info_table_def image_metric_table_def)

interpretation image_rows: row_collector image_value_type "image_blocks v" "image_ok v" for v
  by unfold_locales
     (simp_all only: image_blocks_def list.pred_inject image_info_ok simp_thms
        two_part_blk [OF image_tables_ok image_parts list.distinct(2) image_metric_ok])

section \<open>The samples of an image\<close>

text \<open>What a scrape shows of one entry of the report.\<close>

definition image_samples :: "label_vars \<Rightarrow> Image \<Rightarrow> sample list" where
  "image_samples v rep =
     (let info_labels =
            label_pairs (full_labels v imageDescDefaultLabels (img_Labels rep))
              (full_values v imageDescDefaultLabels (image_label_values rep) (img_Labels rep));
          labels = (if enhanceAllMetrics v then info_labels
                    else label_pairs imageDefaultLabels [img_ID rep, img_Repository rep, img_Tag rep])
      in [(''podman_image_info'', GaugeValue, info_labels, 1),
          (''podman_image_size'', GaugeValue, labels, f64_of_int64 (img_Size rep)),
          (''podman_image_created_seconds'', GaugeValue, labels, f64_of_int64 (img_Created rep))])"

lemma image_blocks_samples:
  "map sample (program_metrics image_value_type (image_blocks v rep)) = image_samples v rep"
  unfolding image_blocks_def two_part_blk_samples [OF image_parts]
  by (simp add: image_info_table_def image_metric_table_def BuildFQName_def namespace_def
      image_samples_def Let_def image_value_type_def image_metric_labels_def
      image_metric_values_def getImageDescLabels_eq)

interpretation image_scrape: sampled_collector image_value_type "image_blocks v" "image_ok v" "image_samples v" for v
  by unfold_locales (rule image_blocks_samples)

end
