(* ===== verification/Pdcs_Inventory.thy ===== *)
theory Pdcs_Inventory
  imports Pdcs_Utils List_Facts
begin

text \<open>
  The reports that are read from the engine at every scrape: pods (\<open>pdcs/pod.go\<close>), networks
  (\<open>pdcs/network.go\<close>), volumes (\<open>pdcs/volume.go\<close>) and system information (\<open>pdcs/system.go\<close>). The
  engine's answer is a parameter; creation times are Unix seconds. Go's \<open>int\<close> is 64 bits wide; the
  number of containers of a pod is a length and stays a \<open>nat\<close>.
\<close>

section \<open>Pods\<close>

record Pod =
  pod_ID :: string
  pod_InfraID :: string
  pod_Name :: string
  pod_Labels :: go_map
  pod_Created :: int64
  pod_State :: int
  pod_NumOfContainers :: nat

record 'c list_pods_report =
  lp_Id :: string
  lp_InfraId :: string
  lp_Name :: string
  lp_Labels :: go_map
  lp_Created :: int64
  lp_Status :: string
  lp_Containers :: "'c list"

definition Pods :: "go_error + 'c list_pods_report list \<Rightarrow> go_error + Pod list" where
  "Pods engine =
     (case engine of
        Inl e \<Rightarrow> Inl e
      | Inr reports \<Rightarrow> Inr (map (\<lambda>rep.
          \<lparr>pod_ID = getID (lp_Id rep), pod_InfraID = getID (lp_InfraId rep),
           pod_Name = lp_Name rep, pod_Labels = lp_Labels rep, pod_Created = lp_Created rep,
           pod_State = podReporter_status (lp_Status rep),
           pod_NumOfContainers = length (lp_Containers rep)\<rparr>) reports))"

section \<open>Networks\<close>

record Network =
  net_Name :: string
  net_ID :: string
  net_Driver :: string
  net_NetworkInterface :: string
  net_Labels :: string

record network_report =
  nr_Name :: string
  nr_ID :: string
  nr_Driver :: string
  nr_NetworkInterface :: string
  nr_Labels :: go_map

definition listPrintReports_labels :: "go_map \<Rightarrow> string" where
  "listPrintReports_labels ls = go_join '','' (map (\<lambda>(k, v). k @ ''='' @ v) ls)"

definition Networks :: "go_error + network_report list \<Rightarrow> go_error + Network list" where
  "Networks engine =
     (case engine of
        Inl e \<Rightarrow> Inl e
      | Inr reports \<Rightarrow> Inr (map (\<lambda>rep.
          \<lparr>net_Name = nr_Name rep, net_ID = getID (nr_ID rep), net_Driver = nr_Driver rep,
           net_NetworkInterface = nr_NetworkInterface rep,
           net_Labels = listPrintReports_labels (nr_Labels rep)\<rparr>) reports))"

text \<open>
  The label text determines the labels and their order when no key or value contains a comma and
  no key an equals sign; the order is whatever the map iteration took.
\<close>

definition separable_label :: "string \<times> string \<Rightarrow> bool" where
  "separable_label kv \<longleftrightarrow>
     CHR '','' \<notin> set (fst kv) \<and> CHR '','' \<notin> set (snd kv) \<and> CHR ''='' \<notin> set (fst kv)"

definition parse_label :: "string \<Rightarrow> string \<times> string" where
  "parse_label s = (takeWhile (\<lambda>c. c \<noteq> CHR ''='') s, tl (dropWhile (\<lambda>c. c \<noteq> CHR ''='') s))"

lemma parse_label_pair: "CHR ''='' \<notin> set k \<Longrightarrow> parse_label (k @ ''='' @ v) = (k, v)"
  by (induction k) (auto simp: parse_label_def)

lemma parse_labels:
  assumes "ls \<noteq> []" and "list_all separable_label ls"
  shows "map parse_label (go_split CHR '','' (listPrintReports_labels ls)) = ls"
proof -
  have "go_split CHR '','' (listPrintReports_labels ls) = map (\<lambda>(k, v). k @ ''='' @ v) ls"
    unfolding listPrintReports_labels_def using assms
    by (intro go_split_join) (auto simp: list_all_iff separable_label_def)
  moreover have "map parse_label (map (\<lambda>(k, v). k @ ''='' @ v) ls) = ls"
    unfolding map_map using assms(2)
    by (intro map_idI) (auto simp: list_all_iff separable_label_def parse_label_pair [simplified])
  ultimately show ?thesis by simp
qed

section \<open>Volumes\<close>

record Volume =
  vol_Name :: string
  vol_Driver :: string
  vol_Created :: int64
  vol_MountPoint :: string

record volume_report =
  vr_Name :: string
  vr_Driver :: string
  vr_Mountpoint :: string
  vr_CreatedAt :: int64

definition Volumes :: "go_error + volume_report list \<Rightarrow> go_error + Volume list" where
  "Volumes engine =
     (case engine of
        Inl e \<Rightarrow> Inl e
      | Inr reports \<Rightarrow> Inr (map (\<lambda>rep.
          \<lparr>vol_Name = vr_Name rep, vol_Driver = vr_Driver rep, vol_Created = vr_CreatedAt rep,
           vol_MountPoint = vr_Mountpoint rep\<rparr>) reports))"

section \<open>System\<close>

record System =
  sys_Podman :: string
  sys_Runtime :: string
  sys_Conmon :: string
  sys_Buildah :: string

text \<open>\<open>Host.OCIRuntime\<close> and \<open>Host.Conmon\<close> are pointers; reading through nil panics.\<close>

record system_info =
  si_APIVersion :: string
  si_OCIRuntimeVersion :: "string option"
  si_ConmonVersion :: "string option"
  si_BuildahVersion :: string

definition runtimeVersion :: "string \<Rightarrow> string" where
  "runtimeVersion v =
     (let runtime = hd (go_split CHR '':'' v);
          runtime = go_replace_all ''commit'' '''' runtime;
          runtime = hd (go_split (CHR 0x0A) runtime)
      in runtime)"

definition conmonVersion :: "string \<Rightarrow> string" where
  "conmonVersion v =
     (let c = hd (go_split CHR '','' v);
          c = go_replace_all ''conmon version'' '''' c;
          c = go_trim_space c
      in c)"

definition SystemInfo :: "go_error + system_info \<Rightarrow> System outcome" where
  "SystemInfo engine =
     (case engine of
        Inl e \<Rightarrow> Err e
      | Inr report \<Rightarrow>
          (case si_OCIRuntimeVersion report of
             None \<Rightarrow> Panic NilPointerDereference
           | Some rv \<Rightarrow>
               (case si_ConmonVersion report of
                  None \<Rightarrow> Panic NilPointerDereference
                | Some cv \<Rightarrow>
                    Ok \<lparr>sys_Podman = si_APIVersion report, sys_Runtime = runtimeVersion rv,
                        sys_Conmon = conmonVersion cv, sys_Buildah = si_BuildahVersion report\<rparr>)))"

lemma hd_go_split: "hd (go_split sep s) = takeWhile (\<lambda>c. c \<noteq> sep) s"
  by (induction s) auto

text \<open>
  The runtime version is one line: whatever the OCI runtime reports, no line feed is left in it,
  nor anything behind the first colon.
\<close>

lemma runtimeVersion_one_line: "CHR 0x0A \<notin> set (runtimeVersion v)"
  by (auto simp: runtimeVersion_def hd_go_split dest: set_takeWhileD)

lemma set_go_replace_all: "set (go_replace_all old new s) \<subseteq> set new \<union> set s"
proof (induction old new s rule: go_replace_all.induct)
  case (2 old new c cs)
  then show ?case using set_drop_subset [of "length old" "c # cs"] by auto
qed simp

lemma set_go_trim_space: "set (go_trim_space s) \<subseteq> set s"
proof -
  have "set (go_trim_space s) \<subseteq> set (concat (go_runes s))"
    by (auto simp: go_trim_space_def simp del: concat_go_runes dest!: set_dropWhileD)
  then show ?thesis by simp
qed

lemma conmonVersion_no_comma: "CHR '','' \<notin> set (conmonVersion v)"
  using set_go_trim_space [of "go_replace_all ''conmon version'' [] (takeWhile (\<lambda>c. c \<noteq> CHR '','') v)"]
    set_go_replace_all [of "''conmon version''" "[]" "takeWhile (\<lambda>c. c \<noteq> CHR '','') v"]
  by (auto simp: conmonVersion_def hd_go_split dest: set_takeWhileD)

lemma runtimeVersion_no_colon: "CHR '':'' \<notin> set (runtimeVersion v)"
  using set_go_replace_all [of "''commit''" "[]" "takeWhile (\<lambda>c. c \<noteq> CHR '':'') v"]
  by (auto simp: runtimeVersion_def hd_go_split dest!: set_takeWhileD)

end
