(* ===== verification/Coll_Pod.thy ===== *)
theory Coll_Pod
  imports Coll_Core Pdcs_Inventory
begin

text \<open>
  \<open>collector/pod.go\<close>: the pod collector. It has the shape of the image collector: an info metric
  over the full labels, and three metrics over \<open>podDefaultLabels\<close> unless metrics are enhanced.
\<close>

datatype pod_field = PInfo | PState | PNumOfContainers | PCreated

definition pod_value_type :: "pod_field \<Rightarrow> value_type" where
  "pod_value_type f = GaugeValue"

definition NewPodStatsCollector :: "pod_field collector" where
  "NewPodStatsCollector = (\<lambda>f. \<lparr>td_desc = None, td_type = pod_value_type f\<rparr>)"

lemma NewPodStatsCollector_type [simp]: "td_type (NewPodStatsCollector f) = pod_value_type f"
  by (simp add: NewPodStatsCollector_def)

definition pod_info_table :: "(pod_field \<times> string \<times> string) list" where
  "pod_info_table = [(PInfo, ''info'', ''Pod information'')]"

definition pod_metric_table :: "(pod_field \<times> string \<times> string) list" where
  "pod_metric_table =
     [(PState, ''state'',
       ''Pods current state current state (-1=unknown,0=created,1=error,2=exited,3=paused,4=running,5=degraded,6=stopped).''),
      (PNumOfContainers, ''containers'', ''Number of containers in a pod.''),
      (PCreated, ''created_seconds'', ''Pods creation time in unixtime.'')]"

text \<open>The method is a copy of the container collector's, over the labels of the pod.\<close>

definition pod_getExtraLabelsAndValues ::
  "label_vars \<Rightarrow> string list \<Rightarrow> Pod \<Rightarrow> string list \<times> string list" where
  "pod_getExtraLabelsAndValues v collectorLabels rep =
     getExtraLabelsAndValues v collectorLabels (pod_Labels rep)"

text \<open>The names and the values of the labels of one object.\<close>

type_synonym podDescLabels = "string list \<times> string list"

definition getPodDescLabels :: "label_vars \<Rightarrow> Pod \<Rightarrow> podDescLabels" where
  "getPodDescLabels v rep =
     (let podLabels = podDescDefaultLabels;
          podLabelsValue = [pod_ID rep, pod_Name rep, pod_InfraID rep];
          (extraLabels, extraValues) = pod_getExtraLabelsAndValues v podLabels rep
      in (podLabels @ extraLabels, podLabelsValue @ extraValues))"

fun pod_loop :: "label_vars \<Rightarrow> string list \<Rightarrow> Pod list \<Rightarrow> pod_field instr list" where
  "pod_loop v defaultPodLabels [] = []"
| "pod_loop v defaultPodLabels (rep # reports) =
     (let (labels, labelsValue) = getPodDescLabels v rep;
          defaultPodLabels = (if enhanceAllMetrics v then labels else defaultPodLabels);
          values = (if enhanceAllMetrics v then labelsValue else [pod_ID rep])
      in block
           (descs ''pod'' pod_info_table labels @ descs ''pod'' pod_metric_table defaultPodLabels)
           (sends labelsValue [(PInfo, 1)]
            @ sends values [(PState, f64_of_int (pod_State rep)),
                            (PNumOfContainers, f64_of_int (int (pod_NumOfContainers rep))),
                            (PCreated, f64_of_int64 (pod_Created rep))])
         @ pod_loop v defaultPodLabels reports)"

definition podCollector_Update ::
  "label_vars \<Rightarrow> go_error + Pod list \<Rightarrow> pod_field instr list outcome" where
  "podCollector_Update v reports =
     (case reports of
        Inl e \<Rightarrow> Err e
      | Inr reports \<Rightarrow> Ok (pod_loop v podDefaultLabels reports))"

section \<open>The update as a row collector\<close>

lemma pod_tables_ok: "table_ok ''pod'' pod_info_table" "table_ok ''pod'' pod_metric_table"
  by code_simp+

definition pod_label_values :: "Pod \<Rightarrow> string list" where
  "pod_label_values rep = [pod_ID rep, pod_Name rep, pod_InfraID rep]"

definition pod_metric_labels :: "label_vars \<Rightarrow> Pod \<Rightarrow> string list" where
  "pod_metric_labels v rep =
     (if enhanceAllMetrics v then fst (getPodDescLabels v rep) else podDefaultLabels)"

definition pod_metric_values :: "label_vars \<Rightarrow> Pod \<Rightarrow> string list" where
  "pod_metric_values v rep =
     (if enhanceAllMetrics v then snd (getPodDescLabels v rep) else [pod_ID rep])"

definition pod_blocks :: "label_vars \<Rightarrow> Pod \<Rightarrow> pod_field blk list" where
  "pod_blocks v rep =
     [two_part_blk ''pod'' pod_info_table pod_metric_table
        (fst (getPodDescLabels v rep)) (pod_metric_labels v rep)
        (snd (getPodDescLabels v rep)) (pod_metric_values v rep)
        [(PInfo, 1)]
        [(PState, f64_of_int (pod_State rep)),
         (PNumOfContainers, f64_of_int (int (pod_NumOfContainers rep))),
         (PCreated, f64_of_int64 (pod_Created rep))]]"

lemma pod_loop_eq:
  "enhanceAllMetrics v \<or> d = podDefaultLabels \<Longrightarrow>
     pod_loop v d reps = program (concat (map (pod_blocks v) reps))"
proof (induction reps arbitrary: d)
  case (Cons rep reps)
  obtain ls vs where l: "getPodDescLabels v rep = (ls, vs)" by fastforce
  have "pod_loop v (if enhanceAllMetrics v then ls else d) reps =
      program (concat (map (pod_blocks v) reps))"
    using Cons.prems by (intro Cons.IH) auto
  moreover have "(if enhanceAllMetrics v then ls else d) = pod_metric_labels v rep"
    using Cons.prems l by (auto simp: pod_metric_labels_def)
  moreover have "program (pod_blocks v rep) =
      block
        (descs ''pod'' pod_info_table ls @ descs ''pod'' pod_metric_table (pod_metric_labels v rep))
        (sends vs [(PInfo, 1)]
         @ sends (if enhanceAllMetrics v then vs else [pod_ID rep])
             [(PState, f64_of_int (pod_State rep)),
              (PNumOfContainers, f64_of_int (int (pod_NumOfContainers rep))),
              (PCreated, f64_of_int64 (pod_Created rep))])"
    by (simp add: pod_blocks_def two_part_blk_def pod_metric_values_def l)
  ultimately show ?case by (simp add: l Let_def)
qed simp

definition pod_ok :: "label_vars \<Rightarrow> Pod \<Rightarrow> bool" where
  "pod_ok v rep \<longleftrightarrow>
     extras_ok v podDescDefaultLabels (pod_Labels rep) \<and>
     values_ok (pod_label_values rep) \<and>
     list_all (\<lambda>(_, x). valid_utf8 x) (kept v podDescDefaultLabels (pod_Labels rep))"

interpretation pod_labels: label_scheme podDescDefaultLabels pod_label_values pod_Labels
  by unfold_locales (code_simp, simp add: pod_label_values_def podDescDefaultLabels_def)

lemma getPodDescLabels_eq:
  "getPodDescLabels v rep =
     (full_labels v podDescDefaultLabels (pod_Labels rep),
      full_values v podDescDefaultLabels (pod_label_values rep) (pod_Labels rep))"
  by (simp add: getPodDescLabels_def pod_getExtraLabelsAndValues_def full_labels_def full_values_def pod_label_values_def
      split_beta Let_def)

lemma podDefaultLabels_ok: "label_names_ok podDefaultLabels"
  by code_simp

lemma pod_info_ok:
  "label_names_ok (fst (getPodDescLabels v rep)) \<and>
   length (snd (getPodDescLabels v rep)) = length (fst (getPodDescLabels v rep)) \<and>
   values_ok (snd (getPodDescLabels v rep)) \<longleftrightarrow> pod_ok v rep"
  by (auto simp: getPodDescLabels_eq pod_ok_def pod_labels.arity
      pod_labels.values_ok_iff full_labels_ok_iff [OF pod_labels.defaults_ok])

lemma pod_metric_ok:
  "label_names_ok (fst (getPodDescLabels v rep)) \<and>
   length (snd (getPodDescLabels v rep)) = length (fst (getPodDescLabels v rep)) \<and>
   values_ok (snd (getPodDescLabels v rep)) \<Longrightarrow>
   label_names_ok (pod_metric_labels v rep) \<and>
   length (pod_metric_values v rep) = length (pod_metric_labels v rep) \<and>
   values_ok (pod_metric_values v rep)"
  unfolding pod_info_ok using pod_info_ok [of v rep] podDefaultLabels_ok
  by (auto simp: pod_metric_labels_def pod_metric_values_def pod_ok_def values_ok_def
      pod_label_values_def podDefaultLabels_def)

lemma pod_parts:
  "fst ` set [(PInfo, 1 :: f64)] \<subseteq> fst ` set pod_info_table"
  "fst ` set [(PState, a :: f64), (PNumOfContainers, b :: f64), (PCreated, c :: f64)]
     \<subseteq> fst ` set pod_metric_table"
  "fst ` set pod_info_table \<inter> fst ` set pod_metric_table = {}"
  by (simp_all add: pod_info_table_def pod_metric_table_def)

interpretation pod_rows: row_collector pod_value_type "pod_blocks v" "pod_ok v" for v
  by unfold_locales
     (simp_all only: pod_blocks_def list.pred_inject pod_info_ok simp_thms
        two_part_blk [OF pod_tables_ok pod_parts list.distinct(2) pod_metric_ok])

section \<open>The samples of a pod\<close>

definition pod_samples :: "label_vars \<Rightarrow> Pod \<Rightarrow> sample list" where
  "pod_samples v rep =
     (let info_labels =
            label_pairs (full_labels v podDescDefaultLabels (pod_Labels rep))
              (full_values v podDescDefaultLabels (pod_label_values rep) (pod_Labels rep));
          labels = (if enhanceAllMetrics v then info_labels
                    else label_pairs podDefaultLabels [pod_ID rep])
      in [(''podman_pod_info'', GaugeValue, info_labels, 1),
          (''podman_pod_state'', GaugeValue, labels, f64_of_int (pod_State rep)),
          (''podman_pod_containers'', GaugeValue, labels,
           f64_of_int (int (pod_NumOfContainers rep))),
          (''podman_pod_created_seconds'', GaugeValue, labels, f64_of_int64 (pod_Created rep))])"

lemma pod_blocks_samples:
  "map sample (program_metrics pod_value_type (pod_blocks v rep)) = pod_samples v rep"
  unfolding pod_blocks_def two_part_blk_samples [OF pod_parts]
  by (simp add: pod_info_table_def pod_metric_table_def BuildFQName_def namespace_def
      pod_samples_def Let_def pod_value_type_def pod_metric_labels_def
      pod_metric_values_def getPodDescLabels_eq)

interpretation pod_scrape: sampled_collector pod_value_type "pod_blocks v" "pod_ok v" "pod_samples v" for v
  by unfold_locales (rule pod_blocks_samples)

end
