(* ===== verification/Pdcs_DiskUsage.thy ===== *)
theory Pdcs_DiskUsage
  imports Go_Runtime Pdcs_Cache List_Facts
begin

text \<open>
  \<open>pdcs/disk_usage.go\<close>: the cached disk usage summary and the arithmetic of \<open>podman system df\<close>.
  Sizes are \<open>int64\<close>: the sums wrap as Go's do. The engine's report is a parameter.
\<close>

section \<open>Data\<close>

record DiskUsage =
  ImagesSize :: int64
  ImagesReclaimable :: int64
  ContainersSize :: int64
  ContainersReclaimable :: int64
  VolumesSize :: int64
  VolumesReclaimable :: int64

record diskUsageReport =
  diskUsage :: DiskUsage
  du_updateErr :: "go_error option"

record df_image =
  dfi_ImageID :: string
  dfi_UniqueSize :: int64
  dfi_Containers :: int64

record df_container =
  dfc_Status :: string
  dfc_RWSize :: int64

record df_volume =
  dfv_Size :: int64
  dfv_ReclaimableSize :: int64

record df_report =
  df_ImagesSize :: int64
  df_Images :: "df_image list"
  df_Containers :: "df_container list"
  df_Volumes :: "df_volume list"

definition zero_usage :: DiskUsage where
  "zero_usage =
     \<lparr>ImagesSize = 0, ImagesReclaimable = 0, ContainersSize = 0, ContainersReclaimable = 0,
      VolumesSize = 0, VolumesReclaimable = 0\<rparr>"

definition initial_diskUsageRep :: diskUsageReport where
  "initial_diskUsageRep = \<lparr>diskUsage = zero_usage, du_updateErr = None\<rparr>"

definition containerStatusRunning :: string where
  "containerStatusRunning = ''running''"

section \<open>Operations\<close>

text \<open>The loop of \<open>imageReclaimable\<close>: the visited identifiers and the sum are its variables.\<close>

fun images_used_loop :: "string set \<Rightarrow> int64 \<Rightarrow> df_image list \<Rightarrow> int64" where
  "images_used_loop visited imagesUsed [] = imagesUsed"
| "images_used_loop visited imagesUsed (img # imgs) =
     (if dfi_ImageID img \<in> visited then images_used_loop visited imagesUsed imgs
      else images_used_loop (insert (dfi_ImageID img) visited)
             (if 0 <s dfi_Containers img then imagesUsed + dfi_UniqueSize img else imagesUsed)
             imgs)"

definition imageReclaimable :: "df_image list \<Rightarrow> int64 \<Rightarrow> int64" where
  "imageReclaimable imgs imagesSize = imagesSize - images_used_loop {} 0 imgs"

definition add_container :: "df_container \<Rightarrow> DiskUsage \<Rightarrow> DiskUsage" where
  "add_container container d =
     (let d = (if dfc_Status container \<noteq> containerStatusRunning
               then d\<lparr>ContainersReclaimable := ContainersReclaimable d + dfc_RWSize container\<rparr>
               else d)
      in d\<lparr>ContainersSize := ContainersSize d + dfc_RWSize container\<rparr>)"

definition add_volume :: "df_volume \<Rightarrow> DiskUsage \<Rightarrow> DiskUsage" where
  "add_volume volume d =
     d\<lparr>VolumesSize := VolumesSize d + dfv_Size volume,
       VolumesReclaimable := VolumesReclaimable d + dfv_ReclaimableSize volume\<rparr>"

definition summarizeDiskUsage :: "df_report \<Rightarrow> DiskUsage" where
  "summarizeDiskUsage report =
     (let d = zero_usage
            \<lparr>ImagesSize := df_ImagesSize report,
             ImagesReclaimable := imageReclaimable (df_Images report) (df_ImagesSize report)\<rparr>;
          d = fold add_container (df_Containers report) d
      in fold add_volume (df_Volumes report) d)"

definition DiskUsageSummary :: "diskUsageReport \<Rightarrow> go_error + DiskUsage" where
  "DiskUsageSummary r =
     (case du_updateErr r of Some e \<Rightarrow> Inl e | None \<Rightarrow> Inr (diskUsage r))"

definition updateDiskUsage :: "go_error + df_report \<Rightarrow> diskUsageReport \<Rightarrow> diskUsageReport" where
  "updateDiskUsage engine r =
     (case engine of
        Inl e \<Rightarrow> r\<lparr>du_updateErr := Some e, diskUsage := zero_usage\<rparr>
      | Inr report \<Rightarrow> r\<lparr>du_updateErr := None, diskUsage := summarizeDiskUsage report\<rparr>)"

interpretation disk_report: initialised_report_cache
  updateDiskUsage DiskUsageSummary summarizeDiskUsage initial_diskUsageRep zero_usage
  by unfold_locales (simp_all add: updateDiskUsage_def DiskUsageSummary_def initial_diskUsageRep_def)

section \<open>The summary in closed form\<close>

lemma images_used_loop_eq:
  "images_used_loop visited a imgs =
     a + sum_list (map dfi_UniqueSize (filter (\<lambda>i. dfi_ImageID i \<notin> visited \<and> 0 <s dfi_Containers i)
           (first_by dfi_ImageID imgs)))"
proof (induction imgs arbitrary: visited a)
  case (Cons i imgs)
  show ?case
  proof (cases "dfi_ImageID i \<in> visited")
    case True
    then have eq: "filter (\<lambda>y. dfi_ImageID y \<noteq> dfi_ImageID i \<and> dfi_ImageID y \<notin> visited \<and>
          0 <s dfi_Containers y) xs =
        filter (\<lambda>y. dfi_ImageID y \<notin> visited \<and> 0 <s dfi_Containers y) xs" for xs
      by (intro filter_cong) auto
    from True show ?thesis by (simp add: Cons.IH) (simp only: eq)
  next
    case False
    have "(\<lambda>y. dfi_ImageID y \<notin> insert (dfi_ImageID i) visited \<and> 0 <s dfi_Containers y)
        = (\<lambda>y. dfi_ImageID y \<noteq> dfi_ImageID i \<and> dfi_ImageID y \<notin> visited \<and> 0 <s dfi_Containers y)"
      by auto
    with False show ?thesis by (simp add: Cons.IH algebra_simps)
  qed
qed simp

lemma imageReclaimable_eq:
  "imageReclaimable imgs sz =
     sz - sum_list (map dfi_UniqueSize
              (filter (\<lambda>i. 0 <s dfi_Containers i) (first_by dfi_ImageID imgs)))"
  by (simp add: imageReclaimable_def images_used_loop_eq)

lemma fold_add_container:
  "fold add_container cs d =
     d\<lparr>ContainersSize := ContainersSize d + sum_list (map dfc_RWSize cs),
       ContainersReclaimable := ContainersReclaimable d +
         sum_list (map dfc_RWSize (filter (\<lambda>c. dfc_Status c \<noteq> containerStatusRunning) cs))\<rparr>"
  by (induction cs arbitrary: d) (simp_all add: add_container_def Let_def algebra_simps)

lemma fold_add_volume:
  "fold add_volume vs d =
     d\<lparr>VolumesSize := VolumesSize d + sum_list (map dfv_Size vs),
       VolumesReclaimable := VolumesReclaimable d + sum_list (map dfv_ReclaimableSize vs)\<rparr>"
  by (induction vs arbitrary: d) (simp_all add: add_volume_def algebra_simps)

lemma summarizeDiskUsage_eq:
  "summarizeDiskUsage r =
     \<lparr>ImagesSize = df_ImagesSize r,
      ImagesReclaimable = df_ImagesSize r - sum_list (map dfi_UniqueSize
        (filter (\<lambda>i. 0 <s dfi_Containers i) (first_by dfi_ImageID (df_Images r)))),
      ContainersSize = sum_list (map dfc_RWSize (df_Containers r)),
      ContainersReclaimable = sum_list (map dfc_RWSize
        (filter (\<lambda>c. dfc_Status c \<noteq> ''running'') (df_Containers r))),
      VolumesSize = sum_list (map dfv_Size (df_Volumes r)),
      VolumesReclaimable = sum_list (map dfv_ReclaimableSize (df_Volumes r))\<rparr>"
  by (simp add: summarizeDiskUsage_def fold_add_container fold_add_volume imageReclaimable_eq
      zero_usage_def containerStatusRunning_def)

section \<open>Sums that do not overflow\<close>

lemma sint_sum_list:
  assumes "\<forall>x \<in> set xs. 0 \<le> sint (x :: int64)" and "sum_list (map sint xs) < 2 ^ 63"
  shows "sint (sum_list xs) = sum_list (map sint xs)"
  using assms
proof (induction xs)
  case (Cons x xs)
  have nonneg: "0 \<le> sum_list (map sint xs)" using Cons.prems by (intro sum_list_nonneg) auto
  have "sint (sum_list xs) = sum_list (map sint xs)"
    using Cons.prems nonneg by (intro Cons.IH) auto
  with Cons.prems nonneg show ?case
    by (simp add: sint_word_ariths signed_take_bit_int_eq_self)
qed simp

text \<open>
  A report without an overflow: no size is negative, the sums fit 63 bits, no volume can give back
  more than its size, and the images have at least the unique sizes of their distinct entries.
\<close>

definition total :: "('a \<Rightarrow> int64) \<Rightarrow> 'a list \<Rightarrow> int" where
  "total f xs = sum_list (map (\<lambda>x. sint (f x)) xs)"

definition df_fits :: "df_report \<Rightarrow> bool" where
  "df_fits r \<longleftrightarrow>
     list_all (\<lambda>c. 0 \<le> sint (dfc_RWSize c)) (df_Containers r) \<and>
     total dfc_RWSize (df_Containers r) < 2 ^ 63 \<and>
     list_all (\<lambda>v. 0 \<le> sint (dfv_ReclaimableSize v) \<and> sint (dfv_ReclaimableSize v) \<le> sint (dfv_Size v))
       (df_Volumes r) \<and>
     total dfv_Size (df_Volumes r) < 2 ^ 63 \<and>
     list_all (\<lambda>i. 0 \<le> sint (dfi_UniqueSize i)) (df_Images r) \<and>
     total dfi_UniqueSize (first_by dfi_ImageID (df_Images r)) \<le> sint (df_ImagesSize r)"

lemma total_nonneg: "list_all (\<lambda>x. 0 \<le> sint (f x)) xs \<Longrightarrow> 0 \<le> total f xs"
  unfolding total_def by (intro sum_list_nonneg) (auto simp: list_all_iff)

lemma total_filter: "list_all (\<lambda>x. 0 \<le> sint (f x)) xs \<Longrightarrow> total f (filter P xs) \<le> total f xs"
  unfolding total_def by (intro sum_list_nonneg_filter) (simp add: list_all_iff)

lemma total_mono: "list_all (\<lambda>x. sint (f x) \<le> sint (g x)) xs \<Longrightarrow> total f xs \<le> total g xs"
  unfolding total_def by (intro sum_list_mono) (simp add: list_all_iff)

lemma list_all_filter: "list_all P xs \<Longrightarrow> list_all P (filter Q xs)"
  by (simp add: list_all_iff)

lemma sint_total:
  "\<lbrakk>list_all (\<lambda>x. 0 \<le> sint (f x)) xs; total f xs < 2 ^ 63\<rbrakk> \<Longrightarrow> sint (sum_list (map f xs)) = total f xs"
  using sint_sum_list [of "map f xs"] by (simp add: total_def list_all_iff comp_def)

lemma sint64_lt: "sint (x :: int64) < 2 ^ 63"
  using sint_lt [of x] by simp

lemma containers_fit:
  assumes "df_fits r"
  shows "sint (ContainersSize (summarizeDiskUsage r)) = total dfc_RWSize (df_Containers r)"
    and "sint (ContainersReclaimable (summarizeDiskUsage r)) =
      total dfc_RWSize (filter (\<lambda>c. dfc_Status c \<noteq> ''running'') (df_Containers r))"
    and "0 \<le> sint (ContainersReclaimable (summarizeDiskUsage r))"
    and "sint (ContainersReclaimable (summarizeDiskUsage r)) \<le> sint (ContainersSize (summarizeDiskUsage r))"
proof -
  let ?stopped = "filter (\<lambda>c. dfc_Status c \<noteq> ''running'') (df_Containers r)"
  have all: "list_all (\<lambda>c. 0 \<le> sint (dfc_RWSize c)) (df_Containers r)"
    "total dfc_RWSize (df_Containers r) < 2 ^ 63"
    using assms by (simp_all add: df_fits_def)
  have some: "list_all (\<lambda>c. 0 \<le> sint (dfc_RWSize c)) ?stopped" using all(1) by (rule list_all_filter)
  have le: "total dfc_RWSize ?stopped \<le> total dfc_RWSize (df_Containers r)" using all(1) by (rule total_filter)
  show s: "sint (ContainersSize (summarizeDiskUsage r)) = total dfc_RWSize (df_Containers r)"
    using sint_total [OF all] by (simp add: summarizeDiskUsage_eq)
  show t: "sint (ContainersReclaimable (summarizeDiskUsage r)) = total dfc_RWSize ?stopped"
    using sint_total [OF some] le all(2) by (simp add: summarizeDiskUsage_eq)
  show "0 \<le> sint (ContainersReclaimable (summarizeDiskUsage r))" using total_nonneg [OF some] t by simp
  show "sint (ContainersReclaimable (summarizeDiskUsage r)) \<le> sint (ContainersSize (summarizeDiskUsage r))"
    using s t le by simp
qed

lemma volumes_fit:
  assumes "df_fits r"
  shows "sint (VolumesSize (summarizeDiskUsage r)) = total dfv_Size (df_Volumes r)"
    and "sint (VolumesReclaimable (summarizeDiskUsage r)) = total dfv_ReclaimableSize (df_Volumes r)"
    and "0 \<le> sint (VolumesReclaimable (summarizeDiskUsage r))"
    and "sint (VolumesReclaimable (summarizeDiskUsage r)) \<le> sint (VolumesSize (summarizeDiskUsage r))"
proof -
  have size: "list_all (\<lambda>v. 0 \<le> sint (dfv_Size v)) (df_Volumes r)" "total dfv_Size (df_Volumes r) < 2 ^ 63"
    and freed: "list_all (\<lambda>v. 0 \<le> sint (dfv_ReclaimableSize v)) (df_Volumes r)"
    and le: "total dfv_ReclaimableSize (df_Volumes r) \<le> total dfv_Size (df_Volumes r)"
    using assms by (auto simp: df_fits_def list_all_iff intro!: total_mono)
  show s: "sint (VolumesSize (summarizeDiskUsage r)) = total dfv_Size (df_Volumes r)"
    using sint_total [OF size] by (simp add: summarizeDiskUsage_eq)
  show t: "sint (VolumesReclaimable (summarizeDiskUsage r)) = total dfv_ReclaimableSize (df_Volumes r)"
    using sint_total [OF freed] le size(2) by (simp add: summarizeDiskUsage_eq)
  show "0 \<le> sint (VolumesReclaimable (summarizeDiskUsage r))" using total_nonneg [OF freed] t by simp
  show "sint (VolumesReclaimable (summarizeDiskUsage r)) \<le> sint (VolumesSize (summarizeDiskUsage r))"
    using s t le by simp
qed

lemma images_fit:
  assumes "df_fits r"
  shows "sint (ImagesReclaimable (summarizeDiskUsage r)) = sint (df_ImagesSize r) -
      total dfi_UniqueSize (filter (\<lambda>i. 0 <s dfi_Containers i) (first_by dfi_ImageID (df_Images r)))"
    and "0 \<le> sint (ImagesReclaimable (summarizeDiskUsage r))"
    and "sint (ImagesReclaimable (summarizeDiskUsage r)) \<le> sint (ImagesSize (summarizeDiskUsage r))"
proof -
  let ?first = "first_by dfi_ImageID (df_Images r)"
  let ?used = "filter (\<lambda>i. 0 <s dfi_Containers i) ?first"
  have first: "list_all (\<lambda>i. 0 \<le> sint (dfi_UniqueSize i)) ?first"
    using assms first_by_subset [of dfi_ImageID "df_Images r"] by (auto simp: df_fits_def list_all_iff)
  have used: "list_all (\<lambda>i. 0 \<le> sint (dfi_UniqueSize i)) ?used" using first by (rule list_all_filter)
  have "total dfi_UniqueSize ?used \<le> total dfi_UniqueSize ?first" using first by (rule total_filter)
  then have le: "total dfi_UniqueSize ?used \<le> sint (df_ImagesSize r)" using assms by (simp add: df_fits_def)
  then have "total dfi_UniqueSize ?used < 2 ^ 63" using sint64_lt [of "df_ImagesSize r"] by (rule le_less_trans)
  then have sum: "sint (sum_list (map dfi_UniqueSize ?used)) = total dfi_UniqueSize ?used"
    using used by (intro sint_total)
  have nonneg: "0 \<le> total dfi_UniqueSize ?used" using used by (rule total_nonneg)
  show diff: "sint (ImagesReclaimable (summarizeDiskUsage r)) =
      sint (df_ImagesSize r) - total dfi_UniqueSize ?used"
    using le nonneg sint64_lt [of "df_ImagesSize r"]
    by (simp add: summarizeDiskUsage_eq sint_word_ariths sum signed_take_bit_int_eq_self)
  show "0 \<le> sint (ImagesReclaimable (summarizeDiskUsage r))" using diff le by simp
  show "sint (ImagesReclaimable (summarizeDiskUsage r)) \<le> sint (ImagesSize (summarizeDiskUsage r))"
    using diff nonneg by (simp add: summarizeDiskUsage_eq)
qed

end
