(* ===== verification/Coll_Static.thy ===== *)
theory Coll_Static
  imports Coll_Core Pdcs_Inventory Pdcs_DiskUsage
begin

text \<open>
  The collectors whose descriptors are built once, by their constructors: network
  (\<open>collector/network.go\<close>), volume (\<open>collector/volume.go\<close>), system (\<open>collector/system.go\<close>) and disk
  usage (\<open>collector/disk_usage.go\<close>). Their updates only send, so the shared struct never changes.
  The locale \<open>static_collector\<close> states the contract; each collector interprets it.
\<close>

definition send_all :: "('f \<times> f64 \<times> string list) list \<Rightarrow> 'f instr list" where
  "send_all ss = map (\<lambda>(f, v, ls). Send f v ls) ss"

definition send_sample :: "'f collector \<Rightarrow> 'f \<times> f64 \<times> string list \<Rightarrow> sample" where
  "send_sample c s =
     sample (const_metric (the (td_desc (c (fst s)))) (td_type (c (fst s))) (fst (snd s))
       (snd (snd s)))"

locale static_collector =
  fixes collector :: "'f collector"
    and row_sends :: "'r \<Rightarrow> ('f \<times> f64 \<times> string list) list"
    and row_ok :: "'r \<Rightarrow> bool"
    and samples :: "'r \<Rightarrow> sample list"
  assumes built: "td_desc (collector f) \<noteq> None"
    and sends_ok: "list_all (\<lambda>s. send_ok (the (td_desc (collector (fst s)))) (snd (snd s)))
        (row_sends r) \<longleftrightarrow> row_ok r"
    and row_samples: "map (send_sample collector) (row_sends r) = samples r"
begin

lemma run_ok:
  assumes "list_all row_ok rs"
  shows "\<exists>ms. run_update collector (Ok (send_all (concat (map row_sends rs)))) =
      (collector, ms, Ok None) \<and> map sample ms = concat (map samples rs)"
proof -
  let ?ss = "concat (map row_sends rs)" and ?D = "\<lambda>f. the (td_desc (collector f))"
  have "td_desc (collector f) = Some (?D f)" for f using built [of f] by auto
  moreover have "send_ok (?D f) ls" if "(f, v, ls) \<in> set ?ss" for f v ls
    using that assms sends_ok by (force simp: list_all_iff)
  ultimately have "run_instrs collector (send_all ?ss) =
      (collector, map (\<lambda>(f, v, ls). const_metric (?D f) (td_type (collector f)) v ls) ?ss, None)"
    unfolding send_all_def by (intro run_sends_ok) auto
  moreover have "map (send_sample collector) ?ss = concat (map samples rs)"
    by (induction rs) (simp_all add: row_samples)
  ultimately show ?thesis
    by (simp add: run_update_def send_sample_def [abs_def] split_beta comp_def)
qed

lemma run_panic:
  assumes "\<not> list_all row_ok rs"
  shows "\<exists>ms e. run_update collector (Ok (send_all (concat (map row_sends rs)))) =
      (collector, ms, Panic (PanicMetricErr e))"
proof -
  let ?ss = "concat (map row_sends rs)" and ?D = "\<lambda>f. the (td_desc (collector f))"
  have "td_desc (collector f) = Some (?D f)" for f using built [of f] by auto
  moreover obtain r where "r \<in> set rs" "\<not> row_ok r" using assms by (auto simp: list_all_iff)
  then obtain f v ls where "(f, v, ls) \<in> set ?ss" "\<not> send_ok (?D f) ls"
    using sends_ok [of r] by (fastforce simp: list_all_iff)
  ultimately have "\<exists>ms e. run_instrs collector (send_all ?ss) = (collector, ms, Some (PanicMetricErr e))"
    unfolding send_all_def by (intro run_sends_panic) auto
  then show ?thesis by (auto simp: run_update_def)
qed

lemma run_panic_iff:
  "(\<exists>p. snd (snd (run_update collector (Ok (send_all (concat (map row_sends rs)))))) = Panic p) \<longleftrightarrow>
     \<not> list_all row_ok rs"
  using run_ok [of rs] run_panic [of rs] by fastforce

text \<open>Both outcomes of an update.\<close>

lemma run_correct:
  "if list_all row_ok rs
   then \<exists>ms. run_update collector (Ok (send_all (concat (map row_sends rs)))) = (collector, ms, Ok None) \<and>
          map sample ms = concat (map samples rs)
   else \<exists>ms p. run_update collector (Ok (send_all (concat (map row_sends rs)))) = (collector, ms, Panic p)"
  using run_ok [of rs] run_panic [of rs] by auto

end

text \<open>An update that only sends leaves the struct as it is, whatever happens.\<close>

lemma send_all_keeps_struct: "fst (run_instrs c (send_all ss)) = c"
proof (induction ss)
  case (Cons s ss)
  obtain f v ls where "s = (f, v, ls)" by (cases s)
  then show ?case
    using Cons.IH
    by (cases "typedDesc_mustNewConstMetric (c f) v ls") (auto simp: send_all_def split: prod.splits)
qed (simp add: send_all_def)

section \<open>Networks\<close>

datatype network_field = NInfo

definition NewNetworkStatsCollector :: "network_field collector" where
  "NewNetworkStatsCollector =
     (\<lambda>_. \<lparr>td_desc = Some (NewDesc (BuildFQName namespace ''network'' ''info'')
                        ''Network information.'' networkDefaultLabels),
          td_type = GaugeValue\<rparr>)"

definition network_sends :: "Network \<Rightarrow> (network_field \<times> f64 \<times> string list) list" where
  "network_sends rep =
     [(NInfo, 1, [net_Name rep, net_ID rep, net_Driver rep, net_NetworkInterface rep, net_Labels rep])]"

definition networkCollector_Update :: "go_error + Network list \<Rightarrow> network_field instr list outcome" where
  "networkCollector_Update reports =
     (case reports of
        Inl e \<Rightarrow> Err e
      | Inr reports \<Rightarrow> Ok (send_all (concat (map network_sends reports))))"

definition network_ok :: "Network \<Rightarrow> bool" where
  "network_ok rep \<longleftrightarrow>
     values_ok [net_Name rep, net_ID rep, net_Driver rep, net_NetworkInterface rep, net_Labels rep]"

definition network_samples :: "Network \<Rightarrow> sample list" where
  "network_samples rep =
     [(''podman_network_info'', GaugeValue,
       [(''driver'', net_Driver rep), (''id'', net_ID rep), (''interface'', net_NetworkInterface rep),
        (''labels'', net_Labels rep), (''name'', net_Name rep)], 1)]"

lemma network_names_ok: "label_names_ok networkDefaultLabels"
  "IsValidMetricName (BuildFQName namespace ''network'' ''info'')"
  by code_simp+

lemma send_sample_NewDesc:
  "td_desc (c f) = Some (NewDesc n h ls) \<Longrightarrow>
     send_sample c (f, v, vs) = (n, td_type (c f), label_pairs ls vs, v)"
  by (simp add: send_sample_def sample_def const_metric_def MakeLabelPairs_def label_pairs_def)

lemma sort_key_network:
  "label_pairs networkDefaultLabels [n, i, d, f, l] =
     [(''driver'', d), (''id'', i), (''interface'', f), (''labels'', l), (''name'', n)]"
  by (simp add: label_pairs_def networkDefaultLabels_def less_char_def)

interpretation network_scrape: static_collector
  NewNetworkStatsCollector network_sends network_ok network_samples
  by unfold_locales
     (simp_all add: NewNetworkStatsCollector_def network_sends_def network_ok_def send_ok_NewDesc
       network_names_ok send_sample_NewDesc network_samples_def sort_key_network,
      simp_all add: networkDefaultLabels_def BuildFQName_def namespace_def)

section \<open>Volumes\<close>

datatype volume_field = VInfo | VCreated

text \<open>The constructor reads \<open>enhanceAllMetrics\<close>; the update reads it again at every scrape.\<close>

definition NewVolumeStatsCollector :: "label_vars \<Rightarrow> volume_field collector" where
  "NewVolumeStatsCollector v =
     (let createdLabels = (if enhanceAllMetrics v then volumeDefaultLabels else [''name''])
      in (\<lambda>f. case f of
           VInfo \<Rightarrow> \<lparr>td_desc = Some (NewDesc (BuildFQName namespace ''volume'' ''info'')
                        ''Volume information.'' volumeDefaultLabels), td_type = GaugeValue\<rparr>
         | VCreated \<Rightarrow> \<lparr>td_desc = Some (NewDesc (BuildFQName namespace ''volume'' ''created_seconds'')
                        ''Volume creation time in unixtime.'' createdLabels), td_type = GaugeValue\<rparr>))"

definition volume_label_values :: "Volume \<Rightarrow> string list" where
  "volume_label_values rep = [vol_Name rep, vol_Driver rep, vol_MountPoint rep]"

definition volume_sends :: "label_vars \<Rightarrow> Volume \<Rightarrow> (volume_field \<times> f64 \<times> string list) list" where
  "volume_sends v rep =
     [(VInfo, 1, volume_label_values rep),
      (VCreated, f64_of_int64 (vol_Created rep),
       if enhanceAllMetrics v then volume_label_values rep else [vol_Name rep])]"

definition volumeCollector_Update ::
  "label_vars \<Rightarrow> go_error + Volume list \<Rightarrow> volume_field instr list outcome" where
  "volumeCollector_Update v reports =
     (case reports of
        Inl e \<Rightarrow> Err e
      | Inr reports \<Rightarrow> Ok (send_all (concat (map (volume_sends v) reports))))"

definition volume_ok :: "Volume \<Rightarrow> bool" where
  "volume_ok rep \<longleftrightarrow> values_ok (volume_label_values rep)"

definition volume_samples :: "label_vars \<Rightarrow> Volume \<Rightarrow> sample list" where
  "volume_samples v rep =
     (let info_labels = [(''driver'', vol_Driver rep), (''mount_point'', vol_MountPoint rep),
                         (''name'', vol_Name rep)]
      in [(''podman_volume_info'', GaugeValue, info_labels, 1),
          (''podman_volume_created_seconds'', GaugeValue,
           if enhanceAllMetrics v then info_labels else [(''name'', vol_Name rep)],
           f64_of_int64 (vol_Created rep))])"

lemma volume_names_ok: "label_names_ok volumeDefaultLabels" "label_names_ok [''name'']"
  "IsValidMetricName (BuildFQName namespace ''volume'' ''info'')"
  "IsValidMetricName (BuildFQName namespace ''volume'' ''created_seconds'')"
  by code_simp+

lemma sort_key_volume:
  "label_pairs volumeDefaultLabels [n, d, m] = [(''driver'', d), (''mount_point'', m), (''name'', n)]"
  "label_pairs [''name''] [n] = [(''name'', n)]"
  by (simp_all add: label_pairs_def volumeDefaultLabels_def less_char_def)

lemma NewVolume_descs:
  "td_desc (NewVolumeStatsCollector v VInfo) =
     Some (NewDesc (BuildFQName namespace ''volume'' ''info'') ''Volume information.'' volumeDefaultLabels)"
  "td_desc (NewVolumeStatsCollector v VCreated) =
     Some (NewDesc (BuildFQName namespace ''volume'' ''created_seconds'')
       ''Volume creation time in unixtime.''
       (if enhanceAllMetrics v then volumeDefaultLabels else [''name'']))"
  "td_type (NewVolumeStatsCollector v f) = GaugeValue"
  by (simp_all add: NewVolumeStatsCollector_def Let_def split: volume_field.split)

interpretation volume_scrape: static_collector
  "NewVolumeStatsCollector v" "volume_sends v" volume_ok "volume_samples v" for v
proof
  fix f rep
  show "td_desc (NewVolumeStatsCollector v f) \<noteq> None"
    by (cases f) (simp_all add: NewVolume_descs)
  have three: "length (volume_label_values rep) = length volumeDefaultLabels"
    by (simp add: volume_label_values_def volumeDefaultLabels_def)
  show "list_all (\<lambda>s. send_ok (the (td_desc (NewVolumeStatsCollector v (fst s)))) (snd (snd s)))
      (volume_sends v rep) \<longleftrightarrow> volume_ok rep"
    by (auto simp: volume_sends_def NewVolume_descs send_ok_NewDesc volume_names_ok three volume_ok_def)
       (simp_all add: volume_label_values_def values_ok_def)
  show "map (send_sample (NewVolumeStatsCollector v)) (volume_sends v rep) = volume_samples v rep"
    by (simp add: volume_sends_def send_sample_NewDesc NewVolume_descs volume_label_values_def
        sort_key_volume volume_samples_def Let_def)
       (simp add: BuildFQName_def namespace_def)
qed

section \<open>System\<close>

datatype system_field = SPodmanVer | SRuntimeVer | SConmonVer | SBuildahVer

fun system_desc :: "system_field \<Rightarrow> string \<times> string" where
  "system_desc SPodmanVer = (''api_version'', ''Podman system api version.'')"
| "system_desc SRuntimeVer = (''runtime_version'', ''Podman system runtime version.'')"
| "system_desc SConmonVer = (''conmon_version'', ''Podman system conmon version.'')"
| "system_desc SBuildahVer = (''buildah_version'', ''Podman system buildahVer version.'')"

definition NewSystemCollector :: "system_field collector" where
  "NewSystemCollector =
     (\<lambda>f. \<lparr>td_desc = Some (NewDesc (BuildFQName namespace ''system'' (fst (system_desc f)))
                        (snd (system_desc f)) systemDefaultLabels),
          td_type = GaugeValue\<rparr>)"

definition system_sends :: "System \<Rightarrow> (system_field \<times> f64 \<times> string list) list" where
  "system_sends info =
     [(SPodmanVer, 1, [sys_Podman info]), (SRuntimeVer, 1, [sys_Runtime info]),
      (SConmonVer, 1, [sys_Conmon info]), (SBuildahVer, 1, [sys_Buildah info])]"

definition systemCollector_Update :: "System outcome \<Rightarrow> system_field instr list outcome" where
  "systemCollector_Update info = bind_outcome info (\<lambda>info. Ok (send_all (system_sends info)))"

definition system_ok :: "System \<Rightarrow> bool" where
  "system_ok info \<longleftrightarrow>
     values_ok [sys_Podman info, sys_Runtime info, sys_Conmon info, sys_Buildah info]"

definition system_samples :: "System \<Rightarrow> sample list" where
  "system_samples info =
     [(''podman_system_api_version'', GaugeValue, [(''version'', sys_Podman info)], 1),
      (''podman_system_runtime_version'', GaugeValue, [(''version'', sys_Runtime info)], 1),
      (''podman_system_conmon_version'', GaugeValue, [(''version'', sys_Conmon info)], 1),
      (''podman_system_buildah_version'', GaugeValue, [(''version'', sys_Buildah info)], 1)]"

lemma system_names_ok: "label_names_ok systemDefaultLabels"
  "IsValidMetricName (BuildFQName namespace ''system'' (fst (system_desc f)))"
  by code_simp (induction f; code_simp)

lemma NewSystem_descs:
  "td_desc (NewSystemCollector f) =
     Some (NewDesc (BuildFQName namespace ''system'' (fst (system_desc f)))
       (snd (system_desc f)) systemDefaultLabels)"
  "td_type (NewSystemCollector f) = GaugeValue"
  by (simp_all add: NewSystemCollector_def)

interpretation system_scrape: static_collector
  NewSystemCollector system_sends system_ok system_samples
  by unfold_locales
     (simp_all add: NewSystem_descs system_sends_def system_ok_def send_ok_NewDesc system_names_ok
       send_sample_NewDesc system_samples_def,
      simp_all add: systemDefaultLabels_def BuildFQName_def namespace_def values_ok_def label_pairs_def)

section \<open>Disk usage\<close>

datatype disk_usage_field =
    DImagesSize | DImagesReclaimable | DContainersSize | DContainersReclaimable | DVolumesSize
  | DVolumesReclaimable

definition newDiskUsageDesc :: "string \<Rightarrow> string \<Rightarrow> typedDesc" where
  "newDiskUsageDesc name h =
     \<lparr>td_desc = Some (NewDesc (BuildFQName namespace ''disk_usage'' name) h []),
      td_type = GaugeValue\<rparr>"

fun disk_usage_desc :: "disk_usage_field \<Rightarrow> string \<times> string" where
  "disk_usage_desc DImagesSize =
     (''images_size_bytes'', ''Podman disk usage of images (sum of all image layers).'')"
| "disk_usage_desc DImagesReclaimable =
     (''images_reclaimable_bytes'',
      ''Podman disk usage estimate of reclaimable image space (images not used by containers).'')"
| "disk_usage_desc DContainersSize =
     (''containers_size_bytes'',
      ''Podman disk usage of containers (sum of container read-write layers).'')"
| "disk_usage_desc DContainersReclaimable =
     (''containers_reclaimable_bytes'',
      ''Podman disk usage estimate of reclaimable container space (containers not running).'')"
| "disk_usage_desc DVolumesSize =
     (''volumes_size_bytes'', ''Podman disk usage of local volumes.'')"
| "disk_usage_desc DVolumesReclaimable =
     (''volumes_reclaimable_bytes'',
      ''Podman disk usage estimate of reclaimable local volume space (volumes not used by containers).'')"

definition NewDiskUsageCollector :: "disk_usage_field collector" where
  "NewDiskUsageCollector =
     (\<lambda>f. newDiskUsageDesc (fst (disk_usage_desc f)) (snd (disk_usage_desc f)))"

definition disk_usage_sends :: "DiskUsage \<Rightarrow> (disk_usage_field \<times> f64 \<times> string list) list" where
  "disk_usage_sends du =
     [(DImagesSize, f64_of_int64 (ImagesSize du), []),
      (DImagesReclaimable, f64_of_int64 (ImagesReclaimable du), []),
      (DContainersSize, f64_of_int64 (ContainersSize du), []),
      (DContainersReclaimable, f64_of_int64 (ContainersReclaimable du), []),
      (DVolumesSize, f64_of_int64 (VolumesSize du), []),
      (DVolumesReclaimable, f64_of_int64 (VolumesReclaimable du), [])]"

definition diskUsageCollector_Update ::
  "go_error + DiskUsage \<Rightarrow> disk_usage_field instr list outcome" where
  "diskUsageCollector_Update du =
     (case du of Inl e \<Rightarrow> Err e | Inr du \<Rightarrow> Ok (send_all (disk_usage_sends du)))"

definition disk_usage_samples :: "DiskUsage \<Rightarrow> sample list" where
  "disk_usage_samples du =
     [(''podman_disk_usage_images_size_bytes'', GaugeValue, [], f64_of_int64 (ImagesSize du)),
      (''podman_disk_usage_images_reclaimable_bytes'', GaugeValue, [],
       f64_of_int64 (ImagesReclaimable du)),
      (''podman_disk_usage_containers_size_bytes'', GaugeValue, [],
       f64_of_int64 (ContainersSize du)),
      (''podman_disk_usage_containers_reclaimable_bytes'', GaugeValue, [],
       f64_of_int64 (ContainersReclaimable du)),
      (''podman_disk_usage_volumes_size_bytes'', GaugeValue, [], f64_of_int64 (VolumesSize du)),
      (''podman_disk_usage_volumes_reclaimable_bytes'', GaugeValue, [],
       f64_of_int64 (VolumesReclaimable du))]"

lemma disk_usage_names_ok:
  "IsValidMetricName (BuildFQName namespace ''disk_usage'' (fst (disk_usage_desc f)))"
  by (induction f; code_simp)

lemma NewDiskUsage_descs:
  "td_desc (NewDiskUsageCollector f) =
     Some (NewDesc (BuildFQName namespace ''disk_usage'' (fst (disk_usage_desc f)))
       (snd (disk_usage_desc f)) [])"
  "td_type (NewDiskUsageCollector f) = GaugeValue"
  by (simp_all add: NewDiskUsageCollector_def newDiskUsageDesc_def)

text \<open>The metrics have no labels, so every summary goes through.\<close>

interpretation disk_usage_scrape: static_collector
  NewDiskUsageCollector disk_usage_sends "\<lambda>_. True" disk_usage_samples
  by unfold_locales
     (simp_all add: NewDiskUsage_descs disk_usage_sends_def send_ok_NewDesc disk_usage_names_ok
       send_sample_NewDesc disk_usage_samples_def,
      simp_all add: BuildFQName_def namespace_def values_ok_def label_pairs_def label_names_ok_def)

end
