(* ===== verification/Coll_Registry.thy ===== *)
theory Coll_Registry
  imports Coll_Container Coll_Image Coll_Pod Coll_Static "HOL-Library.AList" "HOL-Library.Signed_Division"
begin

text \<open>
  \<open>collector/collector.go\<close>: the tables of collectors, \<open>NewPodmanCollector\<close>, \<open>execute\<close> and
  \<open>Collect\<close>. The three package maps are one record; a Go map that is ranged over is an association
  list with distinct keys in the order of the iteration. A running collector is one of the seven
  structs. The seven calls of \<open>registerCollector\<close> are made by the \<open>init\<close> functions in the order of
  their file names.
\<close>

section \<open>Collectors\<close>

datatype Collector =
    containerCollector "container_field collector"
  | diskUsageCollector "disk_usage_field collector"
  | imageCollector "image_field collector"
  | networkCollector "network_field collector"
  | podCollector "pod_field collector"
  | systemCollector "system_field collector"
  | volumeCollector "volume_field collector"

text \<open>
  What the calls into the package \<open>pdcs\<close> return during one scrape: the answers of the engine,
  processed by the functions of the \<open>Pdcs\<close> theories.
\<close>

record pdcs_answers =
  ans_Containers :: "Container list outcome"
  ans_ContainersStats :: "go_error + ContainerStat list"
  ans_DiskUsage :: "go_error + DiskUsage"
  ans_Images :: "go_error + Image list"
  ans_Networks :: "go_error + Network list"
  ans_Pods :: "go_error + Pod list"
  ans_System :: "System outcome"
  ans_Volumes :: "go_error + Volume list"

type_synonym update_result = "Collector \<times> metric list \<times> go_error option outcome"

definition rewrap :: "('c \<Rightarrow> Collector) \<Rightarrow> 'c \<times> 'm \<times> 'o \<Rightarrow> Collector \<times> 'm \<times> 'o" where
  "rewrap k r = (k (fst r), snd r)"

fun Update :: "label_vars \<Rightarrow> pdcs_answers \<Rightarrow> Collector \<Rightarrow> update_result" where
  "Update v a (containerCollector c) =
     rewrap containerCollector
       (run_update c (containerCollector_Update v (ans_Containers a) (ans_ContainersStats a)))"
| "Update v a (diskUsageCollector c) =
     rewrap diskUsageCollector (run_update c (diskUsageCollector_Update (ans_DiskUsage a)))"
| "Update v a (imageCollector c) =
     rewrap imageCollector (run_update c (imageCollector_Update v (ans_Images a)))"
| "Update v a (networkCollector c) =
     rewrap networkCollector (run_update c (networkCollector_Update (ans_Networks a)))"
| "Update v a (podCollector c) =
     rewrap podCollector (run_update c (podCollector_Update v (ans_Pods a)))"
| "Update v a (systemCollector c) =
     rewrap systemCollector (run_update c (systemCollector_Update (ans_System a)))"
| "Update v a (volumeCollector c) =
     rewrap volumeCollector (run_update c (volumeCollector_Update v (ans_Volumes a)))"

section \<open>The tables\<close>

text \<open>A factory reads the label variables when it is called.\<close>

type_synonym factory = "label_vars \<Rightarrow> go_error + Collector"

record collector_tables =
  factories :: "(string \<times> factory) list"
  initiatedCollectors :: "(string \<times> Collector) list"
  collectorState :: "(string \<times> bool) list"

definition initial_tables :: collector_tables where
  "initial_tables = \<lparr>factories = [], initiatedCollectors = [], collectorState = []\<rparr>"

definition registerCollector ::
  "string \<Rightarrow> bool \<Rightarrow> factory \<Rightarrow> collector_tables \<Rightarrow> collector_tables" where
  "registerCollector col enabledByDefault factory t =
     t\<lparr>collectorState := AList.update col enabledByDefault (collectorState t),
       factories := AList.update col factory (factories t)\<rparr>"

definition SetPodmanCollectorState :: "string \<Rightarrow> bool \<Rightarrow> collector_tables \<Rightarrow> collector_tables" where
  "SetPodmanCollectorState name state t =
     t\<lparr>collectorState :=
         map (\<lambda>(key, enabled). (key, if key = name then state else enabled)) (collectorState t)\<rparr>"

definition defaultEnabled :: bool where
  "defaultEnabled = True"

definition defaultDisabled :: bool where
  "defaultDisabled = False"

text \<open>The \<open>init\<close> functions of the files of the collectors.\<close>

definition container_init :: "collector_tables \<Rightarrow> collector_tables" where
  "container_init = registerCollector ''container'' defaultEnabled (\<lambda>v. Inr (containerCollector NewContainerStatsCollector))"

definition disk_usage_init :: "collector_tables \<Rightarrow> collector_tables" where
  "disk_usage_init = registerCollector ''disk_usage'' defaultDisabled (\<lambda>v. Inr (diskUsageCollector NewDiskUsageCollector))"

definition image_init :: "collector_tables \<Rightarrow> collector_tables" where
  "image_init = registerCollector ''image'' defaultDisabled (\<lambda>v. Inr (imageCollector NewImageStatsCollector))"

definition network_init :: "collector_tables \<Rightarrow> collector_tables" where
  "network_init = registerCollector ''network'' defaultDisabled (\<lambda>v. Inr (networkCollector NewNetworkStatsCollector))"

definition pod_init :: "collector_tables \<Rightarrow> collector_tables" where
  "pod_init = registerCollector ''pod'' defaultDisabled (\<lambda>v. Inr (podCollector NewPodStatsCollector))"

definition system_init :: "collector_tables \<Rightarrow> collector_tables" where
  "system_init = registerCollector ''system'' defaultDisabled (\<lambda>v. Inr (systemCollector NewSystemCollector))"

definition volume_init :: "collector_tables \<Rightarrow> collector_tables" where
  "volume_init = registerCollector ''volume'' defaultDisabled (\<lambda>v. Inr (volumeCollector (NewVolumeStatsCollector v)))"

lemmas collector_inits =
  container_init_def disk_usage_init_def image_init_def network_init_def
  pod_init_def system_init_def volume_init_def

text \<open>The tables when \<open>main\<close> starts: Go runs the \<open>init\<close> functions in the order of the file names.\<close>

definition init_tables :: collector_tables where
  "init_tables =
     (volume_init \<circ> system_init \<circ> pod_init \<circ> network_init \<circ> image_init \<circ> disk_usage_init
      \<circ> container_init) initial_tables"

text \<open>A \<open>PodmanCollector\<close> has the collectors a request scrapes (and a logger).\<close>

type_synonym PodmanCollector = "(string \<times> Collector) list"

text \<open>
  The loop of \<open>NewPodmanCollector\<close> over the states, with the local map \<open>collectors\<close>. Calling a
  missing factory would call a nil function.
\<close>

fun new_collectors ::
  "label_vars \<Rightarrow> (string \<times> bool) list \<Rightarrow> (string \<times> Collector) list \<Rightarrow> collector_tables \<Rightarrow>
     ((string \<times> Collector) list \<times> collector_tables) outcome" where
  "new_collectors v [] collectors t = Ok (collectors, t)"
| "new_collectors v ((key, enabled) # states) collectors t =
     (if \<not> enabled then new_collectors v states collectors t
      else case map_of (initiatedCollectors t) key of
        Some c \<Rightarrow> new_collectors v states (AList.update key c collectors) t
      | None \<Rightarrow>
          (case map_of (factories t) key of
             None \<Rightarrow> Panic NilPointerDereference
           | Some factory \<Rightarrow>
               (case factory v of
                  Inl e \<Rightarrow> Err e
                | Inr c \<Rightarrow>
                    new_collectors v states (AList.update key c collectors)
                      (t\<lparr>initiatedCollectors := AList.update key c (initiatedCollectors t)\<rparr>))))"

definition NewPodmanCollector ::
  "label_vars \<Rightarrow> collector_tables \<Rightarrow> (PodmanCollector \<times> collector_tables) outcome" where
  "NewPodmanCollector v t = new_collectors v (collectorState t) [] t"

section \<open>Executing one collector\<close>

definition scrapeDurationDesc :: desc where
  "scrapeDurationDesc =
     NewDesc (BuildFQName namespace ''scrape'' ''collector_duration_seconds'')
       ''podman_prometheus_exporter: Duration of a collector scrape.'' [''collector'']"

definition scrapeSuccessDesc :: desc where
  "scrapeSuccessDesc =
     NewDesc (BuildFQName namespace ''scrape'' ''collector_success'')
       ''podman_prometheus_exporter: Whether a collector succeeded.'' [''collector'']"

definition Describe :: "desc list" where
  "Describe = [scrapeDurationDesc, scrapeSuccessDesc]"

text \<open>\<open>duration.Seconds()\<close>: whole seconds and nanoseconds are converted apart and added.\<close>

definition duration_seconds :: "int64 \<Rightarrow> f64" where
  "duration_seconds d =
     f64_add (f64_of_int (sint d sdiv 1000000000))
       (f64_div (f64_of_int (sint d smod 1000000000)) 1000000000)"

definition IsNoDataError :: "go_error \<Rightarrow> bool" where
  "IsNoDataError e = error_is e ErrNoData"

definition update_success :: "go_error option \<Rightarrow> f64" where
  "update_success err = (case err of Some _ \<Rightarrow> 0 | None \<Rightarrow> 1)"

text \<open>
  The result has the struct, the metrics sent and, when there is one, the panic; \<open>d\<close> is what the
  clock measures.
\<close>

definition execute ::
  "label_vars \<Rightarrow> pdcs_answers \<Rightarrow> int64 \<Rightarrow> string \<Rightarrow> Collector \<Rightarrow>
     Collector \<times> metric list \<times> go_panic option" where
  "execute v a d name c =
     (case Update v a c of
        (c', ms, Panic p) \<Rightarrow> (c', ms, Some p)
      | (c', ms, Err e) \<Rightarrow> (c', ms, None)
      | (c', ms, Ok err) \<Rightarrow>
          (let success = update_success err in
           case MustNewConstMetric (Some scrapeDurationDesc) GaugeValue (duration_seconds d) [name] of
             Ok m1 \<Rightarrow>
               (case MustNewConstMetric (Some scrapeSuccessDesc) GaugeValue success [name] of
                  Ok m2 \<Rightarrow> (c', ms @ [m1, m2], None)
                | Panic p \<Rightarrow> (c', ms @ [m1], Some p)
                | Err e \<Rightarrow> (c', ms @ [m1], None))
           | Panic p \<Rightarrow> (c', ms, Some p)
           | Err e \<Rightarrow> (c', ms, None)))"

section \<open>Collect\<close>

text \<open>
  \<open>Collect\<close> runs \<open>execute\<close> in one goroutine per collector; all of them send to one channel, so its
  receiver sees a merge of their sequences.
\<close>

inductive merges :: "'a list list \<Rightarrow> 'a list \<Rightarrow> bool" where
  merges_done: "list_all (\<lambda>xs. xs = []) xss \<Longrightarrow> merges xss []"
| merges_step: "merges (xss1 @ xs # xss2) ys \<Longrightarrow> merges (xss1 @ (x # xs) # xss2) (x # ys)"

lemma merges_mset: "merges xss ys \<Longrightarrow> mset ys = mset (concat xss)"
  by (induction rule: merges.induct) (auto simp: list_all_iff)

lemma merges_skip: "merges xss ys \<Longrightarrow> merges ([] # xss) ys"
  by (induction rule: merges.induct)
     (auto intro: merges_done merges_step [of "[] # _", simplified])

lemma merges_concat: "merges xss (concat xss)"
proof (induction xss)
  case (Cons xs xss)
  show ?case
  proof (induction xs)
    case Nil
    then show ?case using merges_skip [OF Cons.IH] by simp
  next
    case (Cons x xs)
    then show ?case using merges_step [of "[]" xs xss _ x] by simp
  qed
qed (simp add: merges_done)

text \<open>
  A panic in a goroutine is not recovered there (\<open>safeCollect\<close> recovers only in its own): it ends
  the process. \<open>ds\<close> are the durations the clock measures.
\<close>

datatype collect_result =
    Collected "(string \<times> Collector) list" "metric list"
  | ProcessCrash go_panic

definition executions ::
  "label_vars \<Rightarrow> pdcs_answers \<Rightarrow> int64 list \<Rightarrow> (string \<times> Collector) list \<Rightarrow>
     (Collector \<times> metric list \<times> go_panic option) list" where
  "executions v a ds cs = map2 (\<lambda>d (name, c). execute v a d name c) ds cs"

inductive Collect ::
  "label_vars \<Rightarrow> pdcs_answers \<Rightarrow> int64 list \<Rightarrow> (string \<times> Collector) list \<Rightarrow> collect_result \<Rightarrow> bool"
  for v a ds cs where
  all_done:
    "\<lbrakk>length ds = length cs; list_all (\<lambda>r. snd (snd r) = None) (executions v a ds cs);
      merges (map (\<lambda>r. fst (snd r)) (executions v a ds cs)) ms\<rbrakk> \<Longrightarrow>
     Collect v a ds cs (Collected (zip (map fst cs) (map fst (executions v a ds cs))) ms)"
| one_panics:
    "\<lbrakk>length ds = length cs; (c', ms, Some p) \<in> set (executions v a ds cs)\<rbrakk> \<Longrightarrow>
     Collect v a ds cs (ProcessCrash p)"

inductive_cases CollectedE: "Collect v a ds cs (Collected cs' ms)"
inductive_cases ProcessCrashE: "Collect v a ds cs (ProcessCrash p)"

section \<open>What a collector promises\<close>

text \<open>The struct has the field types and, where its descriptors are static, is as constructed.\<close>

fun built :: "label_vars \<Rightarrow> Collector \<Rightarrow> bool" where
  "built v (containerCollector c) \<longleftrightarrow> (\<forall>f. td_type (c f) = container_value_type f)"
| "built v (diskUsageCollector c) \<longleftrightarrow> c = NewDiskUsageCollector"
| "built v (imageCollector c) \<longleftrightarrow> (\<forall>f. td_type (c f) = image_value_type f)"
| "built v (networkCollector c) \<longleftrightarrow> c = NewNetworkStatsCollector"
| "built v (podCollector c) \<longleftrightarrow> (\<forall>f. td_type (c f) = pod_value_type f)"
| "built v (systemCollector c) \<longleftrightarrow> c = NewSystemCollector"
| "built v (volumeCollector c) \<longleftrightarrow> c = NewVolumeStatsCollector v"

text \<open>The scrape of a collector neither panics nor fails: rows, with the condition on them.\<close>

definition rows_or :: "('e \<Rightarrow> 'x) \<Rightarrow> ('r \<Rightarrow> 'x) \<Rightarrow> 'e + 'r \<Rightarrow> 'x" where
  "rows_or f g r = (case r of Inl e \<Rightarrow> f e | Inr x \<Rightarrow> g x)"

fun collector_ok :: "label_vars \<Rightarrow> pdcs_answers \<Rightarrow> Collector \<Rightarrow> bool" where
  "collector_ok v a (containerCollector c) \<longleftrightarrow>
     (case ans_Containers a of
        Panic p \<Rightarrow> False
      | Err e \<Rightarrow> True
      | Ok reps \<Rightarrow> rows_or (\<lambda>_. True) (\<lambda>_. list_all (container_ok v) reps) (ans_ContainersStats a))"
| "collector_ok v a (diskUsageCollector c) \<longleftrightarrow> True"
| "collector_ok v a (imageCollector c) \<longleftrightarrow> rows_or (\<lambda>_. True) (list_all (image_ok v)) (ans_Images a)"
| "collector_ok v a (networkCollector c) \<longleftrightarrow> rows_or (\<lambda>_. True) (list_all network_ok) (ans_Networks a)"
| "collector_ok v a (podCollector c) \<longleftrightarrow> rows_or (\<lambda>_. True) (list_all (pod_ok v)) (ans_Pods a)"
| "collector_ok v a (systemCollector c) \<longleftrightarrow>
     (case ans_System a of Panic p \<Rightarrow> False | Err e \<Rightarrow> True | Ok info \<Rightarrow> system_ok info)"
| "collector_ok v a (volumeCollector c) \<longleftrightarrow> rows_or (\<lambda>_. True) (list_all volume_ok) (ans_Volumes a)"

fun collector_error :: "pdcs_answers \<Rightarrow> Collector \<Rightarrow> go_error option" where
  "collector_error a (containerCollector c) =
     (case ans_Containers a of
        Err e \<Rightarrow> Some e
      | Ok reps \<Rightarrow> rows_or Some (\<lambda>_. None) (ans_ContainersStats a)
      | Panic p \<Rightarrow> None)"
| "collector_error a (diskUsageCollector c) = rows_or Some (\<lambda>_. None) (ans_DiskUsage a)"
| "collector_error a (imageCollector c) = rows_or Some (\<lambda>_. None) (ans_Images a)"
| "collector_error a (networkCollector c) = rows_or Some (\<lambda>_. None) (ans_Networks a)"
| "collector_error a (podCollector c) = rows_or Some (\<lambda>_. None) (ans_Pods a)"
| "collector_error a (systemCollector c) =
     (case ans_System a of Err e \<Rightarrow> Some e | Ok info \<Rightarrow> None | Panic p \<Rightarrow> None)"
| "collector_error a (volumeCollector c) = rows_or Some (\<lambda>_. None) (ans_Volumes a)"

fun collector_samples :: "label_vars \<Rightarrow> pdcs_answers \<Rightarrow> Collector \<Rightarrow> sample list" where
  "collector_samples v a (containerCollector c) =
     (case ans_Containers a of
        Ok reps \<Rightarrow>
          rows_or (\<lambda>_. []) (\<lambda>st. concat (map (container_samples v st) reps)) (ans_ContainersStats a)
      | _ \<Rightarrow> [])"
| "collector_samples v a (diskUsageCollector c) = rows_or (\<lambda>_. []) disk_usage_samples (ans_DiskUsage a)"
| "collector_samples v a (imageCollector c) =
     rows_or (\<lambda>_. []) (\<lambda>reps. concat (map (image_samples v) reps)) (ans_Images a)"
| "collector_samples v a (networkCollector c) =
     rows_or (\<lambda>_. []) (\<lambda>reps. concat (map network_samples reps)) (ans_Networks a)"
| "collector_samples v a (podCollector c) =
     rows_or (\<lambda>_. []) (\<lambda>reps. concat (map (pod_samples v) reps)) (ans_Pods a)"
| "collector_samples v a (systemCollector c) =
     (case ans_System a of Ok info \<Rightarrow> system_samples info | _ \<Rightarrow> [])"
| "collector_samples v a (volumeCollector c) =
     rows_or (\<lambda>_. []) (\<lambda>reps. concat (map (volume_samples v) reps)) (ans_Volumes a)"

definition update_meets :: "label_vars \<Rightarrow> pdcs_answers \<Rightarrow> Collector \<Rightarrow> bool" where
  "update_meets v a c \<longleftrightarrow>
     (if collector_ok v a c
      then \<exists>c' ms. Update v a c = (c', ms, Ok (collector_error a c)) \<and>
             map sample ms = collector_samples v a c \<and> built v c'
      else \<exists>c' ms p. Update v a c = (c', ms, Panic p))"

lemma run_update_Err [simp]: "run_update c (Err e) = (c, [], Ok (Some e))"
  by (simp add: run_update_def)

lemma run_update_Panic [simp]: "run_update c (Panic p) = (c, [], Panic p)"
  by (simp add: run_update_def)

lemma panic_pair: "\<exists>p. snd (snd r) = Panic p \<Longrightarrow> \<exists>c' ms p. rewrap k r = (c', ms, Panic p)"
  by (cases r) (auto simp: rewrap_def)

lemma container_meets:
  assumes "built v (containerCollector c)"
  shows "update_meets v a (containerCollector c)"
proof (cases "ans_Containers a")
  case (Ok reps)
  show ?thesis
  proof (cases "ans_ContainersStats a")
    case (Inr st)
    have eq: "containerCollector_Update v (Ok reps) (Inr st) =
        Ok (program (concat (map (container_blocks v st) reps)))"
      by (simp add: containerCollector_Update_def container_loop_eq)
    show ?thesis
    proof (cases "list_all (container_ok v) reps")
      case True
      then show ?thesis
        using Ok Inr assms container_scrape.run_rows_samples [OF True, of c st]
        by (auto simp: update_meets_def eq rewrap_def rows_or_def)
    next
      case False
      then show ?thesis
        using Ok Inr container_rows.run_rows_panic_iff [of c v st reps]
        by (auto simp: update_meets_def eq rows_or_def intro!: panic_pair)
    qed
  qed (use Ok assms in \<open>simp add: update_meets_def containerCollector_Update_def rewrap_def rows_or_def\<close>)
qed (use assms in \<open>simp_all add: update_meets_def containerCollector_Update_def rewrap_def\<close>)

lemma image_meets:
  assumes "built v (imageCollector c)"
  shows "update_meets v a (imageCollector c)"
proof (cases "ans_Images a")
  case (Inr reps)
  have eq: "imageCollector_Update v (Inr reps) = Ok (program (concat (map (image_blocks v) reps)))"
    by (simp add: imageCollector_Update_def image_loop_eq)
  show ?thesis
  proof (cases "list_all (image_ok v) reps")
    case True
    then show ?thesis
      using Inr assms image_scrape.run_rows_samples [OF True, of c]
      by (auto simp: update_meets_def eq rewrap_def rows_or_def)
  next
    case False
    then show ?thesis
      using Inr image_rows.run_rows_panic_iff [of c v reps]
      by (auto simp: update_meets_def eq rows_or_def intro!: panic_pair)
  qed
qed (use assms in \<open>simp add: update_meets_def imageCollector_Update_def rewrap_def rows_or_def\<close>)

lemma pod_meets:
  assumes "built v (podCollector c)"
  shows "update_meets v a (podCollector c)"
proof (cases "ans_Pods a")
  case (Inr reps)
  have eq: "podCollector_Update v (Inr reps) = Ok (program (concat (map (pod_blocks v) reps)))"
    by (simp add: podCollector_Update_def pod_loop_eq)
  show ?thesis
  proof (cases "list_all (pod_ok v) reps")
    case True
    then show ?thesis
      using Inr assms pod_scrape.run_rows_samples [OF True, of c]
      by (auto simp: update_meets_def eq rewrap_def rows_or_def)
  next
    case False
    then show ?thesis
      using Inr pod_rows.run_rows_panic_iff [of c v reps]
      by (auto simp: update_meets_def eq rows_or_def intro!: panic_pair)
  qed
qed (use assms in \<open>simp add: update_meets_def podCollector_Update_def rewrap_def rows_or_def\<close>)

lemma network_meets: "update_meets v a (networkCollector NewNetworkStatsCollector)"
proof (cases "ans_Networks a")
  case (Inr reps)
  then show ?thesis
    using network_scrape.run_ok [of reps] network_scrape.run_panic [of reps]
    by (cases "list_all network_ok reps")
       (auto simp: update_meets_def networkCollector_Update_def rewrap_def rows_or_def)
qed (simp add: update_meets_def networkCollector_Update_def rewrap_def rows_or_def)

lemma volume_meets: "update_meets v a (volumeCollector (NewVolumeStatsCollector v))"
proof (cases "ans_Volumes a")
  case (Inr reps)
  then show ?thesis
    using volume_scrape.run_ok [of reps v] volume_scrape.run_panic [of reps v]
    by (cases "list_all volume_ok reps")
       (auto simp: update_meets_def volumeCollector_Update_def rewrap_def rows_or_def)
qed (simp add: update_meets_def volumeCollector_Update_def rewrap_def rows_or_def)

lemma system_meets: "update_meets v a (systemCollector NewSystemCollector)"
proof (cases "ans_System a")
  case (Ok info)
  then show ?thesis
    using system_scrape.run_ok [of "[info]"] system_scrape.run_panic [of "[info]"]
    by (cases "system_ok info")
       (auto simp: update_meets_def systemCollector_Update_def rewrap_def)
qed (simp_all add: update_meets_def systemCollector_Update_def rewrap_def)

lemma disk_usage_meets: "update_meets v a (diskUsageCollector NewDiskUsageCollector)"
proof (cases "ans_DiskUsage a")
  case (Inr du)
  then show ?thesis
    using disk_usage_scrape.run_ok [of "[du]"]
    by (auto simp: update_meets_def diskUsageCollector_Update_def rewrap_def rows_or_def)
qed (simp add: update_meets_def diskUsageCollector_Update_def rewrap_def rows_or_def)

lemma update_meets: "built v c \<Longrightarrow> update_meets v a c"
  by (cases c)
     (simp_all add: container_meets image_meets pod_meets network_meets volume_meets system_meets
       disk_usage_meets del: built.simps(1,3,5))

section \<open>The outcome of a scrape\<close>

definition scrape_samples :: "string \<Rightarrow> int64 \<Rightarrow> go_error option \<Rightarrow> sample list" where
  "scrape_samples name d err =
     [(''podman_scrape_collector_duration_seconds'', GaugeValue, [(''collector'', name)],
       duration_seconds d),
      (''podman_scrape_collector_success'', GaugeValue, [(''collector'', name)],
       update_success err)]"

lemma scrape_descs_ok:
  "IsValidMetricName (BuildFQName namespace ''scrape'' ''collector_duration_seconds'')"
  "IsValidMetricName (BuildFQName namespace ''scrape'' ''collector_success'')"
  "label_names_ok [''collector'']"
  by code_simp+

lemma scrape_metrics:
  assumes "valid_utf8 name"
  shows "MustNewConstMetric (Some scrapeDurationDesc) t x [name] = Ok (const_metric scrapeDurationDesc t x [name])"
    "MustNewConstMetric (Some scrapeSuccessDesc) t x [name] = Ok (const_metric scrapeSuccessDesc t x [name])"
    "sample (const_metric scrapeDurationDesc t x [name]) =
       (''podman_scrape_collector_duration_seconds'', t, [(''collector'', name)], x)"
    "sample (const_metric scrapeSuccessDesc t x [name]) =
       (''podman_scrape_collector_success'', t, [(''collector'', name)], x)"
proof -
  have "send_ok scrapeDurationDesc [name]" "send_ok scrapeSuccessDesc [name]"
    using assms
    by (simp_all only: scrapeDurationDesc_def scrapeSuccessDesc_def send_ok_NewDesc scrape_descs_ok)
       (simp_all add: values_ok_def)
  then show "MustNewConstMetric (Some scrapeDurationDesc) t x [name] = Ok (const_metric scrapeDurationDesc t x [name])"
    "MustNewConstMetric (Some scrapeSuccessDesc) t x [name] = Ok (const_metric scrapeSuccessDesc t x [name])"
    by (simp_all add: MustNewConstMetric_ok)
qed (simp_all add: sample_def const_metric_def MakeLabelPairs_def scrapeDurationDesc_def
    scrapeSuccessDesc_def BuildFQName_def namespace_def)

lemma execute_ok:
  assumes "built v c" and "collector_ok v a c" and "valid_utf8 name"
  shows "\<exists>c' ms. execute v a d name c = (c', ms, None) \<and>
    map sample ms = collector_samples v a c @ scrape_samples name d (collector_error a c) \<and>
    built v c'"
proof -
  obtain c' ms where "Update v a c = (c', ms, Ok (collector_error a c))"
    "map sample ms = collector_samples v a c" "built v c'"
    using update_meets [OF assms(1), of a] assms(2) by (auto simp: update_meets_def)
  then show ?thesis
    by (simp add: execute_def scrape_metrics [OF assms(3)] scrape_samples_def)
qed

lemma execute_panic:
  assumes "built v c" and "\<not> collector_ok v a c"
  shows "\<exists>c' ms p. execute v a d name c = (c', ms, Some p)"
  using update_meets [OF assms(1), of a] assms(2) by (auto simp: update_meets_def execute_def)

text \<open>What a scrape in which no collector panics shows, collector by collector.\<close>

definition expected_samples ::
  "label_vars \<Rightarrow> pdcs_answers \<Rightarrow> int64 list \<Rightarrow> (string \<times> Collector) list \<Rightarrow> sample list" where
  "expected_samples v a ds cs =
     concat (map2 (\<lambda>d (name, c).
       collector_samples v a c @ scrape_samples name d (collector_error a c)) ds cs)"

definition collectors_built :: "label_vars \<Rightarrow> (string \<times> Collector) list \<Rightarrow> bool" where
  "collectors_built v cs \<longleftrightarrow> list_all (\<lambda>(name, c). built v c \<and> valid_utf8 name) cs"

lemma executions_ok:
  assumes "collectors_built v cs" and "list_all (\<lambda>(_, c). collector_ok v a c) cs"
    and "length ds = length cs"
  shows "list_all (\<lambda>r. snd (snd r) = None \<and> built v (fst r)) (executions v a ds cs)"
    and "map sample (concat (map (\<lambda>r. fst (snd r)) (executions v a ds cs))) = expected_samples v a ds cs"
proof -
  have "list_all (\<lambda>r. snd (snd r) = None \<and> built v (fst r)) (executions v a ds cs) \<and>
      map sample (concat (map (\<lambda>r. fst (snd r)) (executions v a ds cs))) = expected_samples v a ds cs"
    using assms(3,1,2)
  proof (induction ds cs rule: list_induct2)
    case (Cons d ds nc cs)
    obtain n c where nc: "nc = (n, c)" by fastforce
    with Cons.prems obtain c' ms where "execute v a d n c = (c', ms, None)"
      "map sample ms = collector_samples v a c @ scrape_samples n d (collector_error a c)"
      "built v c'"
      using execute_ok [of v c a n d] by (auto simp: collectors_built_def)
    with Cons nc show ?case
      by (simp add: executions_def expected_samples_def collectors_built_def)
  qed (simp add: executions_def expected_samples_def)
  then show "list_all (\<lambda>r. snd (snd r) = None \<and> built v (fst r)) (executions v a ds cs)"
    "map sample (concat (map (\<lambda>r. fst (snd r)) (executions v a ds cs))) = expected_samples v a ds cs"
    by simp_all
qed

lemma executions_Cons [simp]:
  "executions v a (d # ds) ((n, c) # cs) = execute v a d n c # executions v a ds cs"
  by (simp add: executions_def)

lemma executions_panic:
  assumes "collectors_built v cs" and "\<not> list_all (\<lambda>(_, c). collector_ok v a c) cs"
    and "length ds = length cs"
  shows "\<exists>c' ms p. (c', ms, Some p) \<in> set (executions v a ds cs)"
  using assms(3,1,2)
proof (induction ds cs rule: list_induct2)
  case (Cons d ds nc cs)
  obtain n c where nc: "nc = (n, c)" by fastforce
  show ?case
  proof (cases "collector_ok v a c")
    case True
    then have "\<exists>c' ms p. (c', ms, Some p) \<in> set (executions v a ds cs)"
      using Cons nc by (auto simp: collectors_built_def)
    then show ?thesis using nc by auto
  next
    case False
    then have "\<exists>c' ms p. execute v a d n c = (c', ms, Some p)"
      using Cons.prems nc by (intro execute_panic) (auto simp: collectors_built_def)
    then show ?thesis using nc by fastforce
  qed
qed simp

lemma executions_length: "length ds = length cs \<Longrightarrow> length (executions v a ds cs) = length cs"
  by (simp add: executions_def)

text \<open>
  When every collector's answers are acceptable, a scrape finishes, keeps the structs built, and
  whatever the merge of the goroutines' sends, it consists of exactly the expected samples.
\<close>

lemma Collect_complete:
  assumes "collectors_built v cs" and "list_all (\<lambda>(_, c). collector_ok v a c) cs"
    and "Collect v a ds cs r"
  shows "\<exists>cs' ms. r = Collected cs' ms \<and> mset (map sample ms) = mset (expected_samples v a ds cs) \<and>
    map fst cs' = map fst cs \<and> collectors_built v cs'"
  using assms(3)
proof (cases rule: Collect.cases)
  case (all_done ms)
  note ok = executions_ok [OF assms(1,2) all_done(2)]
  have "mset ms = mset (concat (map (\<lambda>r. fst (snd r)) (executions v a ds cs)))"
    using all_done(4) by (rule merges_mset)
  then have "mset (map sample ms) = mset (expected_samples v a ds cs)"
    unfolding ok(2) [symmetric] by (simp add: mset_map)
  moreover have "collectors_built v (zip (map fst cs) (map fst (executions v a ds cs)))"
    using ok(1) assms(1)
    by (fastforce simp: collectors_built_def list_all_iff dest: set_zip_leftD set_zip_rightD)
  ultimately show ?thesis
    using all_done(1) executions_length [OF all_done(2), of v a] by auto
next
  case (one_panics c' ms p)
  with executions_ok(1) [OF assms(1,2) one_panics(2)] show ?thesis
    by (force simp: list_all_iff)
qed

lemma Collect_finishes:
  assumes "length ds = length cs"
  shows "\<exists>r. Collect v a ds cs r"
proof (cases "list_all (\<lambda>r. snd (snd r) = None) (executions v a ds cs)")
  case True
  show ?thesis using all_done [OF assms True merges_concat] by blast
next
  case False
  then obtain c' ms p where "(c', ms, Some p) \<in> set (executions v a ds cs)"
    by (auto simp: list_all_iff)
  then show ?thesis using one_panics [OF assms] by blast
qed

lemma Collect_crash_iff:
  assumes "collectors_built v cs" and "length ds = length cs"
  shows "(\<exists>p. Collect v a ds cs (ProcessCrash p)) \<longleftrightarrow>
    \<not> list_all (\<lambda>(_, c). collector_ok v a c) cs"
proof
  assume "\<exists>p. Collect v a ds cs (ProcessCrash p)"
  then show "\<not> list_all (\<lambda>(_, c). collector_ok v a c) cs"
    using Collect_complete [OF assms(1), of a ds] by blast
next
  assume "\<not> list_all (\<lambda>(_, c). collector_ok v a c) cs"
  from executions_panic [OF assms(1) this assms(2)] show "\<exists>p. Collect v a ds cs (ProcessCrash p)"
    using one_panics [OF assms(2)] by blast
qed

text \<open>Among the expected samples is the success of every collector.\<close>

lemma expected_success:
  "length ds = length cs \<Longrightarrow> (name, c) \<in> set cs \<Longrightarrow>
     (''podman_scrape_collector_success'', GaugeValue, [(''collector'', name)],
      if collector_error a c = None then 1 else 0) \<in> set (expected_samples v a ds cs)"
proof (induction ds cs rule: list_induct2)
  case (Cons d ds x cs)
  show ?case
  proof (cases "x = (name, c)")
    case True
    then show ?thesis
      by (auto simp: expected_samples_def scrape_samples_def update_success_def split: option.splits)
  next
    case False
    then show ?thesis using Cons by (auto simp: expected_samples_def)
  qed
qed simp

lemma expected_successes:
  "length ds = length cs \<Longrightarrow> \<forall>(name, c) \<in> set cs.
     (''podman_scrape_collector_success'', GaugeValue, [(''collector'', name)],
      if collector_error a c = None then 1 else 0) \<in> set (expected_samples v a ds cs)"
  using expected_success by blast

section \<open>The tables and NewPodmanCollector\<close>

text \<open>
  The invariant of the tables: the states have distinct names, each name has a factory that yields
  a built struct, and the structs initiated so far are built.
\<close>

definition factory_ok :: "label_vars \<Rightarrow> factory option \<Rightarrow> bool" where
  "factory_ok v f \<longleftrightarrow> (case f of
     None \<Rightarrow> False
   | Some f \<Rightarrow> (case f v of Inl _ \<Rightarrow> False | Inr c \<Rightarrow> built v c))"

definition tables_wf :: "label_vars \<Rightarrow> collector_tables \<Rightarrow> bool" where
  "tables_wf v t \<longleftrightarrow>
     distinct (map fst (collectorState t)) \<and>
     list_all (\<lambda>(k, _). valid_utf8 k \<and> factory_ok v (map_of (factories t) k)) (collectorState t) \<and>
     list_all (\<lambda>(_, c). built v c) (initiatedCollectors t)"

definition enabled_names :: "collector_tables \<Rightarrow> string list" where
  "enabled_names t = map fst (filter snd (collectorState t))"

lemma built_update:
  "\<lbrakk>list_all (\<lambda>(_, c). built v c) cs; built v c\<rbrakk> \<Longrightarrow>
     list_all (\<lambda>(_, c). built v c) (AList.update k c cs)"
  by (induction cs) auto

lemma collectors_built_update:
  "\<lbrakk>collectors_built v cs; built v c; valid_utf8 k\<rbrakk> \<Longrightarrow> collectors_built v (AList.update k c cs)"
  unfolding collectors_built_def by (induction cs) auto

lemma update_fresh: "k \<notin> fst ` set cs \<Longrightarrow> AList.update k c cs = cs @ [(k, c)]"
  by (induction cs) auto

lemma new_collectors_ok:
  assumes "tables_wf v t"
    and "list_all (\<lambda>(k, _). valid_utf8 k \<and> factory_ok v (map_of (factories t) k)) states"
    and "distinct (map fst states)" and "fst ` set acc \<inter> fst ` set states = {}"
    and "collectors_built v acc"
  shows "\<exists>cs t'. new_collectors v states acc t = Ok (cs, t') \<and>
    map fst cs = map fst acc @ map fst (filter snd states) \<and> collectors_built v cs \<and>
    tables_wf v t' \<and> factories t' = factories t \<and> collectorState t' = collectorState t"
  using assms
proof (induction v states acc t rule: new_collectors.induct)
  case (2 v k e states acc t)
  have k: "valid_utf8 k" "factory_ok v (map_of (factories t) k)" "k \<notin> fst ` set acc"
    using "2.prems"(2,4) by auto
  show ?case
  proof (cases e)
    case False
    then show ?thesis using "2.IH"(1) "2.prems" by simp
  next
    case True
    show ?thesis
    proof (cases "map_of (initiatedCollectors t) k")
      case (Some c)
      then have "built v c" using "2.prems"(1) by (auto simp: tables_wf_def list_all_iff dest: map_of_SomeD)
      then have "collectors_built v (AList.update k c acc)"
        using k "2.prems"(5) by (simp add: collectors_built_update)
      then show ?thesis
        using "2.IH"(3) [OF _ Some] True Some "2.prems" k by (simp add: update_fresh)
    next
      case None
      obtain f c where f: "map_of (factories t) k = Some f" "f v = Inr c" "built v c"
        using k(2) by (auto simp: factory_ok_def split: option.splits sum.splits)
      let ?t = "t\<lparr>initiatedCollectors := AList.update k c (initiatedCollectors t)\<rparr>"
      have "tables_wf v ?t" using "2.prems"(1) f by (simp add: tables_wf_def built_update)
      moreover have "collectors_built v (AList.update k c acc)"
        using k f "2.prems"(5) by (simp add: collectors_built_update)
      ultimately show ?thesis
        using "2.IH"(2) [OF _ None f(1,2)] True None f "2.prems" k by (simp add: update_fresh)
    qed
  qed
qed simp

lemma NewPodmanCollector_ok:
  assumes "tables_wf v t"
  shows "\<exists>cs t'. NewPodmanCollector v t = Ok (cs, t') \<and> map fst cs = enabled_names t \<and>
    collectors_built v cs \<and> tables_wf v t' \<and> collectorState t' = collectorState t"
proof -
  have "list_all (\<lambda>(k, _). valid_utf8 k \<and> factory_ok v (map_of (factories t) k)) (collectorState t)"
    "distinct (map fst (collectorState t))" "collectors_built v []"
    using assms by (simp_all add: tables_wf_def collectors_built_def)
  then show ?thesis
    using new_collectors_ok [OF assms, of "collectorState t" "[]"]
    by (auto simp: NewPodmanCollector_def enabled_names_def)
qed

lemma SetPodmanCollectorState_wf:
  "tables_wf v t \<Longrightarrow> tables_wf v (SetPodmanCollectorState name state t)"
  by (auto simp: tables_wf_def SetPodmanCollectorState_def list_all_iff comp_def split_beta)

lemma SetPodmanCollectorState_states:
  "map_of (collectorState (SetPodmanCollectorState name state t)) k =
     (if k = name then map_option (\<lambda>_. state) (map_of (collectorState t) k)
      else map_of (collectorState t) k)"
proof -
  have "map_of (map (\<lambda>(key, e). (key, if key = name then state else e)) xs) k =
      (if k = name then map_option (\<lambda>_. state) (map_of xs k) else map_of xs k)" for xs :: "(string \<times> bool) list"
    by (induction xs) auto
  then show ?thesis by (simp add: SetPodmanCollectorState_def)
qed

lemma init_tables_states:
  "collectorState init_tables =
     [(''container'', True), (''disk_usage'', False), (''image'', False), (''network'', False),
      (''pod'', False), (''system'', False), (''volume'', False)]"
  by (simp add: init_tables_def collector_inits registerCollector_def initial_tables_def defaultEnabled_def
      defaultDisabled_def)

lemma collector_names_ok:
  "list_all valid_utf8 [''container'', ''disk_usage'', ''image'', ''network'', ''pod'', ''system'', ''volume'']"
  by code_simp

lemma init_tables_wf: "tables_wf v init_tables"
  using collector_names_ok
  by (simp add: tables_wf_def init_tables_states)
     (simp add: init_tables_def collector_inits registerCollector_def initial_tables_def factory_ok_def
       NewContainerStatsCollector_def NewImageStatsCollector_def NewPodStatsCollector_def)

section \<open>The collectors are shared\<close>

text \<open>
  What the loop of \<open>NewPodmanCollector\<close> builds once the structs exist: the same structs, whatever
  the label variables are by then.
\<close>

definition share :: "(string \<times> Collector) list \<Rightarrow> (string \<times> bool) list \<Rightarrow>
    (string \<times> Collector) list \<Rightarrow> (string \<times> Collector) list" where
  "share made = fold (\<lambda>(k, e) cs. if e then AList.update k (the (map_of made k)) cs else cs)"

lemma new_collectors_made:
  "(\<And>k. (k, True) \<in> set states \<Longrightarrow> map_of (initiatedCollectors t) k \<noteq> None) \<Longrightarrow>
     new_collectors w states cs t = Ok (share (initiatedCollectors t) states cs, t)"
proof (induction w states cs t rule: new_collectors.induct)
  case (2 v key enabled states cs t)
  show ?case
  proof (cases enabled)
    case True
    then obtain c where c: "map_of (initiatedCollectors t) key = Some c" using "2.prems" [of key] by auto
    then show ?thesis using "2.IH"(3) [OF _ c] "2.prems" True by (simp add: share_def)
  next
    case False
    then show ?thesis using "2.IH"(1) "2.prems" by (simp add: share_def)
  qed
qed (simp add: share_def)

lemma new_collectors_makes:
  "new_collectors v states cs t = Ok (cs', t') \<Longrightarrow>
     map_of (initiatedCollectors t) \<subseteq>\<^sub>m map_of (initiatedCollectors t') \<and>
     (\<forall>k. (k, True) \<in> set states \<longrightarrow> map_of (initiatedCollectors t') k \<noteq> None) \<and>
     cs' = share (initiatedCollectors t') states cs \<and> collectorState t' = collectorState t"
proof (induction v states cs t rule: new_collectors.induct)
  case (2 v key enabled states cs t)
  show ?case
  proof (cases enabled)
    case False
    then show ?thesis using 2 by (auto simp: share_def)
  next
    case enabled: True
    show ?thesis
    proof (cases "map_of (initiatedCollectors t) key")
      case (Some c)
      note IH = "2.IH"(3) [OF _ Some]
      have "map_of (initiatedCollectors t') key = Some c"
        using IH "2.prems" enabled Some by (auto simp: map_le_def dom_def)
      then show ?thesis using IH "2.prems" enabled Some by (auto simp: share_def)
    next
      case None
      obtain f c where f: "map_of (factories t) key = Some f" "f v = Inr c"
        using "2.prems"(1) enabled None by (auto split: option.splits sum.splits)
      note IH = "2.IH"(2) [OF _ None f]
      have le: "map_of (AList.update key c (initiatedCollectors t)) \<subseteq>\<^sub>m map_of (initiatedCollectors t')"
        using IH "2.prems" enabled None f by simp
      then have "map_of (initiatedCollectors t') key = Some c"
        by (auto simp: map_le_def update_conv' dom_def)
      moreover have "map_of (initiatedCollectors t) \<subseteq>\<^sub>m map_of (initiatedCollectors t')"
        using le None by (auto simp: map_le_def update_conv' dom_def split: if_splits)
      ultimately show ?thesis using IH "2.prems" enabled None f by (auto simp: share_def)
    qed
  qed
qed (simp add: share_def)

lemma NewPodmanCollector_shares:
  assumes "NewPodmanCollector v t = Ok (cs, t')"
  shows "NewPodmanCollector w t' = Ok (cs, t')"
proof -
  have made: "\<And>k. (k, True) \<in> set (collectorState t') \<Longrightarrow> map_of (initiatedCollectors t') k \<noteq> None"
    "cs = share (initiatedCollectors t') (collectorState t') []"
    using new_collectors_makes [OF assms [unfolded NewPodmanCollector_def]] by auto
  then show ?thesis using new_collectors_made [of "collectorState t'" t' w "[]"]
    by (simp add: NewPodmanCollector_def)
qed

end
