(* ===== verification/Exporter_Options.thy ===== *)
theory Exporter_Options
  imports Coll_Registry
begin

text \<open>
  The command line (\<open>cmd/root.go\<close>) and the options (\<open>exporter/exporter.go\<close>: \<open>parseOptions\<close>,
  \<open>setEnabledCollectors\<close>, \<open>getEnabledCollectors\<close>). A flag set of package \<open>pflag\<close> is a map from
  names to typed values; a getter fails when the flag is not defined or has another type. Parsing a
  command line assigns values of a flag's own type to defined flags; durations are nanoseconds.
\<close>

section \<open>Flags\<close>

datatype flag_value =
    FBool bool
  | FString string
  | FStringArray "string list"
  | FInt int64
  | FDuration int64

type_synonym flag_set = "string \<rightharpoonup> flag_value"

definition flag_get :: "(flag_value \<Rightarrow> 'a option) \<Rightarrow> flag_set \<Rightarrow> string \<Rightarrow> go_error + 'a" where
  "flag_get sel fs name =
     (case fs name of
        None \<Rightarrow> Inl (FlagError name)
      | Some fv \<Rightarrow> (case sel fv of None \<Rightarrow> Inl (FlagError name) | Some x \<Rightarrow> Inr x))"

definition GetBool :: "flag_set \<Rightarrow> string \<Rightarrow> go_error + bool" where
  "GetBool = flag_get (\<lambda>fv. case fv of FBool b \<Rightarrow> Some b | _ \<Rightarrow> None)"

definition GetString :: "flag_set \<Rightarrow> string \<Rightarrow> go_error + string" where
  "GetString = flag_get (\<lambda>fv. case fv of FString s \<Rightarrow> Some s | _ \<Rightarrow> None)"

definition GetStringArray :: "flag_set \<Rightarrow> string \<Rightarrow> go_error + string list" where
  "GetStringArray = flag_get (\<lambda>fv. case fv of FStringArray s \<Rightarrow> Some s | _ \<Rightarrow> None)"

definition GetInt :: "flag_set \<Rightarrow> string \<Rightarrow> go_error + int64" where
  "GetInt = flag_get (\<lambda>fv. case fv of FInt i \<Rightarrow> Some i | _ \<Rightarrow> None)"

definition GetDuration :: "flag_set \<Rightarrow> string \<Rightarrow> go_error + int64" where
  "GetDuration = flag_get (\<lambda>fv. case fv of FDuration d \<Rightarrow> Some d | _ \<Rightarrow> None)"

definition maxRequest :: int64 where
  "maxRequest = 40"

definition default_cacheDuration :: int64 where
  "default_cacheDuration = 3600000000000"

definition defaultContainerStatsTimeout :: int64 where
  "defaultContainerStatsTimeout = 1000000000"

text \<open>The flags \<open>init\<close> defines, with their defaults.\<close>

definition root_flags :: "(string \<times> flag_value) list" where
  "root_flags =
     [(''debug'', FBool False),
      (''version'', FBool False),
      (''web.config.file'', FString ''''),
      (''web.listen-address'', FStringArray ['':9882'']),
      (''web.telemetry-path'', FString ''/metrics''),
      (''web.disable-exporter-metrics'', FBool False),
      (''web.max-requests'', FInt maxRequest),
      (''collector.enable-all'', FBool False),
      (''collector.image'', FBool False),
      (''collector.pod'', FBool False),
      (''collector.volume'', FBool False),
      (''collector.network'', FBool False),
      (''collector.system'', FBool False),
      (''collector.disk-usage'', FBool False),
      (''collector.store-labels'', FBool False),
      (''collector.whitelisted-labels'', FString ''''),
      (''collector.cache-duration'', FDuration default_cacheDuration),
      (''collector.container-stats-timeout'', FDuration defaultContainerStatsTimeout),
      (''collector.enhance-metrics'', FBool False)]"

text \<open>The shorthands, all different, which \<open>pflag\<close> insists on.\<close>

definition root_shorthands :: "(char \<times> string) list" where
  "root_shorthands =
     [(CHR ''d'', ''debug''), (CHR ''l'', ''web.listen-address''), (CHR ''p'', ''web.telemetry-path''),
      (CHR ''e'', ''web.disable-exporter-metrics''), (CHR ''m'', ''web.max-requests''),
      (CHR ''a'', ''collector.enable-all''), (CHR ''i'', ''collector.image''),
      (CHR ''o'', ''collector.pod''), (CHR ''v'', ''collector.volume''),
      (CHR ''n'', ''collector.network''), (CHR ''s'', ''collector.system''),
      (CHR ''u'', ''collector.disk-usage''), (CHR ''b'', ''collector.store-labels''),
      (CHR ''w'', ''collector.whitelisted-labels'')]"

definition default_flags :: flag_set where
  "default_flags = map_of root_flags"

text \<open>
  Assigning to a flag keeps its type; this is what parsing does, one flag after another. All uses of
  the array flag in a command line count as one assignment of the whole list.
\<close>

fun same_type :: "flag_value \<Rightarrow> flag_value \<Rightarrow> bool" where
  "same_type (FBool _) (FBool _) = True"
| "same_type (FString _) (FString _) = True"
| "same_type (FStringArray _) (FStringArray _) = True"
| "same_type (FInt _) (FInt _) = True"
| "same_type (FDuration _) (FDuration _) = True"
| "same_type _ _ = False"

definition set_flag :: "string \<Rightarrow> flag_value \<Rightarrow> flag_set \<Rightarrow> go_error + flag_set" where
  "set_flag name x fs =
     (case fs name of
        None \<Rightarrow> Inl (FlagError name)
      | Some old \<Rightarrow> (if same_type old x then Inr (fs(name \<mapsto> x)) else Inl (FlagError name)))"

fun bind_result :: "'e + 'a \<Rightarrow> ('a \<Rightarrow> 'e + 'b) \<Rightarrow> 'e + 'b" where
  "bind_result (Inl e) f = Inl e"
| "bind_result (Inr x) f = f x"

fun set_flags :: "(string \<times> flag_value) list \<Rightarrow> flag_set \<Rightarrow> go_error + flag_set" where
  "set_flags [] fs = Inr fs"
| "set_flags ((name, x) # args) fs = bind_result (set_flag name x fs) (set_flags args)"

section \<open>Options\<close>

record exporterOptions =
  debug :: bool
  webListen :: "string list"
  webMaxRequests :: int64
  webTelemetryPath :: string
  webDisableExporterMetrics :: bool
  webConfigFile :: string
  cacheDuration :: int64
  containerStatsTimeout :: int64
  enableAll :: bool
  opt_storeLabels :: bool
  whiteListedLabels :: string
  enableImages :: bool
  enablePods :: bool
  enableVolumes :: bool
  enableNetworks :: bool
  enableSystem :: bool
  enableDiskUsage :: bool
  enhanceMetrics :: bool

definition errInvalidTimeoutDuration :: string where
  "errInvalidTimeoutDuration = ''duration/timeout must be greater than zero''"

definition wrap_error :: "string \<Rightarrow> go_error + 'a \<Rightarrow> go_error + 'a" where
  "wrap_error m r = map_sum (WrappedError m) id r"

definition parseOptions :: "flag_set \<Rightarrow> go_error + exporterOptions" where
  "parseOptions fs =
     bind_result (GetBool fs ''debug'') (\<lambda>dbg.
     bind_result (GetStringArray fs ''web.listen-address'') (\<lambda>listen.
     bind_result (GetInt fs ''web.max-requests'') (\<lambda>maxRequests.
     bind_result (GetString fs ''web.telemetry-path'') (\<lambda>path.
     bind_result (GetBool fs ''web.disable-exporter-metrics'') (\<lambda>disable.
     bind_result (GetString fs ''web.config.file'') (\<lambda>configFile.
     bind_result (GetBool fs ''collector.enable-all'') (\<lambda>all.
     bind_result (GetBool fs ''collector.store-labels'') (\<lambda>store.
     bind_result (GetString fs ''collector.whitelisted-labels'') (\<lambda>whitelist.
     bind_result (GetBool fs ''collector.image'') (\<lambda>imgs.
     bind_result (GetBool fs ''collector.pod'') (\<lambda>pods.
     bind_result (GetBool fs ''collector.volume'') (\<lambda>vols.
     bind_result (GetBool fs ''collector.network'') (\<lambda>nets.
     bind_result (GetBool fs ''collector.system'') (\<lambda>sys.
     bind_result (GetBool fs ''collector.disk-usage'') (\<lambda>du.
     bind_result (wrap_error errInvalidTimeoutDuration
       (GetDuration fs ''collector.cache-duration'')) (\<lambda>cacheD.
     bind_result (wrap_error errInvalidTimeoutDuration
       (GetDuration fs ''collector.container-stats-timeout'')) (\<lambda>statsT.
     bind_result (GetBool fs ''collector.enhance-metrics'') (\<lambda>enhance.
     Inr \<lparr>debug = dbg, webListen = listen, webMaxRequests = maxRequests, webTelemetryPath = path,
          webDisableExporterMetrics = disable, webConfigFile = configFile, cacheDuration = cacheD,
          containerStatsTimeout = statsT, enableAll = all, opt_storeLabels = store,
          whiteListedLabels = whitelist, enableImages = imgs, enablePods = pods,
          enableVolumes = vols, enableNetworks = nets, enableSystem = sys, enableDiskUsage = du,
          enhanceMetrics = enhance\<rparr>))))))))))))))))))"

section \<open>Enabling collectors\<close>

definition getEnabledCollectors :: "exporterOptions \<Rightarrow> string list" where
  "getEnabledCollectors opts =
     (if enableImages opts then [''image''] else []) @
     (if enablePods opts then [''pod''] else []) @
     (if enableVolumes opts then [''volume''] else []) @
     (if enableNetworks opts then [''network''] else []) @
     (if enableSystem opts then [''system''] else []) @
     (if enableDiskUsage opts then [''disk_usage''] else [])"

definition enList :: "exporterOptions \<Rightarrow> string list" where
  "enList opts =
     [''container''] @
     (if enableAll opts then [''pod'', ''image'', ''volume'', ''network'', ''system'', ''disk_usage'']
      else getEnabledCollectors opts)"

definition setEnabledCollectors ::
  "exporterOptions \<Rightarrow> label_vars \<times> collector_tables \<Rightarrow> label_vars \<times> collector_tables" where
  "setEnabledCollectors opts s =
     (RegisterVariableLabels (opt_storeLabels opts) (whiteListedLabels opts) (enhanceMetrics opts) (fst s),
      fold (\<lambda>col. SetPodmanCollectorState col True) (enList opts) (snd s))"

section \<open>Lemmas\<close>

text \<open>The flags that the program reads have the types it reads them with.\<close>

definition flags_typed :: "flag_set \<Rightarrow> bool" where
  "flags_typed fs \<longleftrightarrow>
     list_all (\<lambda>(name, x). case fs name of None \<Rightarrow> False | Some y \<Rightarrow> same_type x y) root_flags"

lemma same_type_refl [simp]: "same_type x x"
  by (cases x) auto

lemma same_type_trans: "same_type x y \<Longrightarrow> same_type y z \<Longrightarrow> same_type x z"
  by (cases x; cases y; cases z) auto

lemma default_flags_typed: "flags_typed default_flags"
  by code_simp

lemma set_flag_typed: "set_flag name x fs = Inr fs' \<Longrightarrow> flags_typed fs \<Longrightarrow> flags_typed fs'"
  unfolding flags_typed_def set_flag_def list_all_iff
  by (force split: option.splits if_splits intro: same_type_trans)

lemma set_flags_typed: "set_flags args fs = Inr fs' \<Longrightarrow> flags_typed fs \<Longrightarrow> flags_typed fs'"
proof (induction args arbitrary: fs)
  case (Cons a args)
  obtain name x where a: "a = (name, x)" by (cases a)
  then obtain fs1 where "set_flag name x fs = Inr fs1" "set_flags args fs1 = Inr fs'"
    using Cons.prems(1) by (cases "set_flag name x fs") auto
  then show ?case using Cons.IH Cons.prems(2) set_flag_typed by blast
qed simp

text \<open>Each option is the value of its flag.\<close>

definition options_read :: "flag_set \<Rightarrow> exporterOptions \<Rightarrow> bool" where
  "options_read fs opts \<longleftrightarrow>
     fs ''debug'' = Some (FBool (debug opts)) \<and>
     fs ''web.listen-address'' = Some (FStringArray (webListen opts)) \<and>
     fs ''web.max-requests'' = Some (FInt (webMaxRequests opts)) \<and>
     fs ''web.telemetry-path'' = Some (FString (webTelemetryPath opts)) \<and>
     fs ''web.disable-exporter-metrics'' = Some (FBool (webDisableExporterMetrics opts)) \<and>
     fs ''web.config.file'' = Some (FString (webConfigFile opts)) \<and>
     fs ''collector.enable-all'' = Some (FBool (enableAll opts)) \<and>
     fs ''collector.store-labels'' = Some (FBool (opt_storeLabels opts)) \<and>
     fs ''collector.whitelisted-labels'' = Some (FString (whiteListedLabels opts)) \<and>
     fs ''collector.image'' = Some (FBool (enableImages opts)) \<and>
     fs ''collector.pod'' = Some (FBool (enablePods opts)) \<and>
     fs ''collector.volume'' = Some (FBool (enableVolumes opts)) \<and>
     fs ''collector.network'' = Some (FBool (enableNetworks opts)) \<and>
     fs ''collector.system'' = Some (FBool (enableSystem opts)) \<and>
     fs ''collector.disk-usage'' = Some (FBool (enableDiskUsage opts)) \<and>
     fs ''collector.cache-duration'' = Some (FDuration (cacheDuration opts)) \<and>
     fs ''collector.container-stats-timeout'' = Some (FDuration (containerStatsTimeout opts)) \<and>
     fs ''collector.enhance-metrics'' = Some (FBool (enhanceMetrics opts))"

lemma typed_value:
  "(case r of None \<Rightarrow> False | Some y \<Rightarrow> same_type (FBool b) y) \<longleftrightarrow> (\<exists>x. r = Some (FBool x))"
  "(case r of None \<Rightarrow> False | Some y \<Rightarrow> same_type (FString s) y) \<longleftrightarrow> (\<exists>x. r = Some (FString x))"
  "(case r of None \<Rightarrow> False | Some y \<Rightarrow> same_type (FStringArray ss) y) \<longleftrightarrow> (\<exists>x. r = Some (FStringArray x))"
  "(case r of None \<Rightarrow> False | Some y \<Rightarrow> same_type (FInt i) y) \<longleftrightarrow> (\<exists>x. r = Some (FInt x))"
  "(case r of None \<Rightarrow> False | Some y \<Rightarrow> same_type (FDuration d) y) \<longleftrightarrow> (\<exists>x. r = Some (FDuration x))"
  by (cases r; (cases "the r"; simp)?)+

lemmas getter_defs = GetBool_def GetString_def GetStringArray_def GetInt_def GetDuration_def flag_get_def

lemma parseOptions_ok:
  assumes "flags_typed fs"
  shows "\<exists>opts. parseOptions fs = Inr opts \<and> options_read fs opts"
proof -
  have "(\<exists>x. fs ''debug'' = Some (FBool x)) \<and>
      (\<exists>x. fs ''web.listen-address'' = Some (FStringArray x)) \<and>
      (\<exists>x. fs ''web.max-requests'' = Some (FInt x)) \<and>
      (\<exists>x. fs ''web.telemetry-path'' = Some (FString x)) \<and>
      (\<exists>x. fs ''web.disable-exporter-metrics'' = Some (FBool x)) \<and>
      (\<exists>x. fs ''web.config.file'' = Some (FString x)) \<and>
      (\<exists>x. fs ''collector.enable-all'' = Some (FBool x)) \<and>
      (\<exists>x. fs ''collector.store-labels'' = Some (FBool x)) \<and>
      (\<exists>x. fs ''collector.whitelisted-labels'' = Some (FString x)) \<and>
      (\<exists>x. fs ''collector.image'' = Some (FBool x)) \<and>
      (\<exists>x. fs ''collector.pod'' = Some (FBool x)) \<and>
      (\<exists>x. fs ''collector.volume'' = Some (FBool x)) \<and>
      (\<exists>x. fs ''collector.network'' = Some (FBool x)) \<and>
      (\<exists>x. fs ''collector.system'' = Some (FBool x)) \<and>
      (\<exists>x. fs ''collector.disk-usage'' = Some (FBool x)) \<and>
      (\<exists>x. fs ''collector.cache-duration'' = Some (FDuration x)) \<and>
      (\<exists>x. fs ''collector.container-stats-timeout'' = Some (FDuration x)) \<and>
      (\<exists>x. fs ''collector.enhance-metrics'' = Some (FBool x))"
    using assms unfolding flags_typed_def root_flags_def list.pred_inject prod.case typed_value by blast
  then show ?thesis
    by (elim conjE exE) (simp add: parseOptions_def options_read_def wrap_error_def getter_defs)
qed

lemma version_typed: "flags_typed fs \<Longrightarrow> \<exists>b. fs ''version'' = Some (FBool b)"
  unfolding flags_typed_def root_flags_def list.pred_inject prod.case typed_value by blast

section \<open>The collectors that are enabled\<close>

lemma SetPodmanCollectorState_fold:
  "collectorState (fold (\<lambda>col. SetPodmanCollectorState col True) cols t) =
     map (\<lambda>(k, e). (k, e \<or> k \<in> set cols)) (collectorState t)"
proof (induction cols arbitrary: t)
  case (Cons c cols)
  have "collectorState (SetPodmanCollectorState c True t) = map (\<lambda>(k, e). (k, e \<or> k = c)) (collectorState t)"
    by (simp add: SetPodmanCollectorState_def cong: map_cong) (auto simp: split_beta)
  then show ?case by (simp add: Cons.IH split_beta disj_assoc)
qed (simp add: split_beta)

lemma SetPodmanCollectorState_fold_wf:
  "tables_wf v t \<Longrightarrow> tables_wf v (fold (\<lambda>col. SetPodmanCollectorState col True) cols t)"
  by (induction cols arbitrary: t) (simp_all add: SetPodmanCollectorState_wf)

text \<open>Which collectors a user asked for.\<close>

fun wanted :: "exporterOptions \<Rightarrow> string \<Rightarrow> bool" where
  "wanted opts col \<longleftrightarrow>
     col = ''container'' \<or> enableAll opts \<or>
     col = ''image'' \<and> enableImages opts \<or> col = ''pod'' \<and> enablePods opts \<or>
     col = ''volume'' \<and> enableVolumes opts \<or> col = ''network'' \<and> enableNetworks opts \<or>
     col = ''system'' \<and> enableSystem opts \<or> col = ''disk_usage'' \<and> enableDiskUsage opts"

definition collector_names :: "string list" where
  "collector_names =
     [''container'', ''disk_usage'', ''image'', ''network'', ''pod'', ''system'', ''volume'']"

lemma enList_wanted:
  "col \<in> set collector_names \<Longrightarrow> col \<in> set (enList opts) \<longleftrightarrow> wanted opts col"
  by (auto simp: collector_names_def enList_def getEnabledCollectors_def)

lemma setEnabledCollectors_names:
  "enabled_names (snd (setEnabledCollectors opts (v, init_tables))) =
     filter (wanted opts) collector_names"
proof -
  have init: "collectorState init_tables = map (\<lambda>k. (k, k = ''container'')) collector_names"
    by (simp add: init_tables_states collector_names_def)
  have "enabled_names (snd (setEnabledCollectors opts (v, init_tables))) =
      filter (\<lambda>k. k = ''container'' \<or> k \<in> set (enList opts)) collector_names"
    by (simp add: enabled_names_def setEnabledCollectors_def SetPodmanCollectorState_fold init
        filter_map comp_def)
  also have "\<dots> = filter (wanted opts) collector_names"
    by (intro filter_cong refl) (use enList_wanted [of _ opts] in \<open>auto simp: enList_def\<close>)
  finally show ?thesis .
qed

lemma setEnabledCollectors_wf:
  "tables_wf w (snd (setEnabledCollectors opts (v, init_tables)))"
  by (simp add: setEnabledCollectors_def SetPodmanCollectorState_fold_wf init_tables_wf)

end
