(* ===== verification/Exporter_Handler.thy ===== *)
theory Exporter_Handler
  imports Exporter_Options Reachability
begin

text \<open>
  \<open>exporter/handler.go\<close>: the handler of the metrics path and the requests in flight. A handler made
  by \<open>promhttp.HandlerFor\<close> is its collectors and the capacity of its own semaphore of requests; the
  registry of the exporter's own metrics comes in where a request is answered (\<open>Prom_Gatherers\<close>). \<open>server\<close> is the state a serving process keeps: the handler, the tables, and how many
  scrapes are running on the prepared handler and on handlers created for one request.
\<close>

section \<open>Registering a collector\<close>

text \<open>
  \<open>Register\<close> of the vendored registry for descriptors without constant labels: \<open>names\<close> are the
  registered names. A known name makes the identifier or the dimensions collide.
\<close>

definition Register :: "desc list \<Rightarrow> string list \<Rightarrow> go_error + string list" where
  "Register ds names =
     (case filter (\<lambda>d. desc_err d \<noteq> None) ds of
        d # _ \<Rightarrow> Inl (RegisterError (fqName d))
      | [] \<Rightarrow>
          (case filter (\<lambda>d. fqName d \<in> set names) ds of
             d # _ \<Rightarrow> Inl (RegisterError (fqName d))
           | [] \<Rightarrow> Inr (names @ map fqName ds)))"

definition build_info_name :: string where
  "build_info_name = ''prometheus_podman_exporter_build_info''"

lemma Describe_registers:
  "Register Describe [build_info_name] =
     Inr [build_info_name, ''podman_scrape_collector_duration_seconds'',
          ''podman_scrape_collector_success'']"
  by code_simp

section \<open>Handlers\<close>

record scrape_handler =
  sh_collectors :: "(string \<times> Collector) list"
  sh_maxInFlight :: int
  sh_instrumented :: bool

record handler =
  unfilteredHandler :: scrape_handler
  disableExporterMetrics :: bool
  maxRequests :: int64

text \<open>The result has the names logged at the creation of the unfiltered handler, sorted.\<close>

definition innerHandler ::
  "label_vars \<Rightarrow> bool \<Rightarrow> int64 \<Rightarrow> string list \<Rightarrow> collector_tables \<Rightarrow>
     (scrape_handler \<times> string list \<times> collector_tables) outcome" where
  "innerHandler v disable maxReq filters t =
     (case NewPodmanCollector v t of
        Err e \<Rightarrow> Err (WrappedError ''couldn't create collector'' e)
      | Panic p \<Rightarrow> Panic p
      | Ok (podc, t') \<Rightarrow>
          (let logged = (if length filters = 0 then sort (map fst podc) else []) in
           case Register Describe [build_info_name] of
             Inl e \<Rightarrow> Err (WrappedError ''couldn't register podman collector'' e)
           | Inr _ \<Rightarrow>
               Ok (\<lparr>sh_collectors = podc, sh_maxInFlight = sint maxReq,
                    sh_instrumented = \<not> disable\<rparr>, logged, t')))"

text \<open>\<open>newHandler\<close> panics when the handler cannot be created.\<close>

definition newHandler ::
  "label_vars \<Rightarrow> bool \<Rightarrow> int64 \<Rightarrow> collector_tables \<Rightarrow> (handler \<times> string list \<times> collector_tables) outcome"
  where
  "newHandler v disable maxReq t =
     (case innerHandler v disable maxReq [] t of
        Err e \<Rightarrow> Panic (PanicError e)
      | Panic p \<Rightarrow> Panic p
      | Ok (sh, logged, t') \<Rightarrow>
          Ok (\<lparr>unfilteredHandler = sh, disableExporterMetrics = disable, maxRequests = maxReq\<rparr>,
              logged, t'))"

section \<open>Requests\<close>

text \<open>
  What \<open>HandlerFor\<close> does first: with a positive limit, take a slot of the semaphore or answer 503.
\<close>

definition admit :: "int \<Rightarrow> nat \<Rightarrow> nat option" where
  "admit maxInFlight running =
     (if 0 < maxInFlight \<and> maxInFlight \<le> int running then None else Some (running + 1))"

record server =
  srv_handler :: handler
  srv_tables :: collector_tables
  srv_running :: nat
  srv_filtered :: nat

datatype response =
    Scraping "(string \<times> Collector) list"
  | ServiceUnavailable
  | BadRequest go_error

definition ServeHTTP :: "label_vars \<Rightarrow> string list \<Rightarrow> server \<Rightarrow> (response \<times> server) outcome" where
  "ServeHTTP v filters s =
     (if length filters = 0 then
        (case admit (sh_maxInFlight (unfilteredHandler (srv_handler s))) (srv_running s) of
           None \<Rightarrow> Ok (ServiceUnavailable, s)
         | Some n \<Rightarrow>
             Ok (Scraping (sh_collectors (unfilteredHandler (srv_handler s))), s\<lparr>srv_running := n\<rparr>))
      else
        (case innerHandler v (disableExporterMetrics (srv_handler s)) (maxRequests (srv_handler s))
                filters (srv_tables s) of
           Panic p \<Rightarrow> Panic p
         | Err e \<Rightarrow> Ok (BadRequest e, s)
         | Ok (filteredHandler, _, t') \<Rightarrow>
             (case admit (sh_maxInFlight filteredHandler) 0 of
                None \<Rightarrow> Ok (ServiceUnavailable, s\<lparr>srv_tables := t'\<rparr>)
              | Some n \<Rightarrow>
                  Ok (Scraping (sh_collectors filteredHandler),
                      s\<lparr>srv_tables := t', srv_filtered := srv_filtered s + n\<rparr>))))"

text \<open>Requests arrive and finish in any order.\<close>

inductive serve_step :: "label_vars \<Rightarrow> server \<Rightarrow> server \<Rightarrow> bool" for v :: label_vars where
  request: "ServeHTTP v filters s = Ok (r, s') \<Longrightarrow> serve_step v s s'"
| finish: "0 < srv_running s \<Longrightarrow> serve_step v s (s\<lparr>srv_running := srv_running s - 1\<rparr>)"
| finish_filtered:
    "0 < srv_filtered s \<Longrightarrow> serve_step v s (s\<lparr>srv_filtered := srv_filtered s - 1\<rparr>)"

definition serve_init :: "label_vars \<Rightarrow> bool \<Rightarrow> int64 \<Rightarrow> collector_tables \<Rightarrow> server \<Rightarrow> bool" where
  "serve_init v disable maxReq t s \<longleftrightarrow>
     (\<exists>h logged t'. newHandler v disable maxReq t = Ok (h, logged, t') \<and>
        s = \<lparr>srv_handler = h, srv_tables = t', srv_running = 0, srv_filtered = 0\<rparr>)"

section \<open>Lemmas\<close>

lemma innerHandler_ok:
  assumes "tables_wf v t"
  shows "\<exists>cs t' logged. innerHandler v disable maxReq filters t =
      Ok (\<lparr>sh_collectors = cs, sh_maxInFlight = sint maxReq, sh_instrumented = \<not> disable\<rparr>, logged, t') \<and>
    map fst cs = enabled_names t \<and> collectors_built v cs \<and> tables_wf v t' \<and>
    enabled_names t' = enabled_names t"
  using NewPodmanCollector_ok [OF assms]
  by (auto simp: innerHandler_def Describe_registers enabled_names_def Let_def)

text \<open>
  The invariant of a serving process: the prepared handler has the enabled collectors and the
  configured limit, the tables stay well formed and hold the structs of the prepared handler, and
  with a positive limit no more scrapes than that run on the prepared handler.
\<close>

definition serve_inv :: "label_vars \<Rightarrow> int64 \<Rightarrow> string list \<Rightarrow> server \<Rightarrow> bool" where
  "serve_inv v maxReq names s \<longleftrightarrow>
     maxRequests (srv_handler s) = maxReq \<and>
     sh_maxInFlight (unfilteredHandler (srv_handler s)) = sint maxReq \<and>
     map fst (sh_collectors (unfilteredHandler (srv_handler s))) = names \<and>
     collectors_built v (sh_collectors (unfilteredHandler (srv_handler s))) \<and>
     tables_wf v (srv_tables s) \<and> enabled_names (srv_tables s) = names \<and>
     NewPodmanCollector v (srv_tables s) =
       Ok (sh_collectors (unfilteredHandler (srv_handler s)), srv_tables s) \<and>
     (0 < sint maxReq \<longrightarrow> int (srv_running s) \<le> sint maxReq)"

lemma innerHandler_eq:
  "NewPodmanCollector v t = Ok (cs, t') \<Longrightarrow>
     \<exists>logged. innerHandler v disable maxReq filters t =
       Ok (\<lparr>sh_collectors = cs, sh_maxInFlight = sint maxReq, sh_instrumented = \<not> disable\<rparr>, logged, t')"
  by (simp add: innerHandler_def Describe_registers Let_def)

lemma serve_init_inv:
  assumes "tables_wf v t" and "serve_init v disable maxReq t s"
  shows "serve_inv v maxReq (enabled_names t) s"
proof -
  obtain cs t' where cs: "NewPodmanCollector v t = Ok (cs, t')" "map fst cs = enabled_names t"
    "collectors_built v cs" "tables_wf v t'" "collectorState t' = collectorState t"
    using NewPodmanCollector_ok [OF assms(1)] by blast
  show ?thesis
    using assms(2) cs innerHandler_eq [OF cs(1), of disable maxReq "[]"] NewPodmanCollector_shares [OF cs(1)]
    by (auto simp: serve_init_def newHandler_def serve_inv_def enabled_names_def)
qed

text \<open>
  A request never panics. With filters it is answered by a scrape of the structs of the prepared
  handler, and never refused.
\<close>

lemma ServeHTTP_filtered:
  assumes "serve_inv v maxReq names s" and "filters \<noteq> []"
  shows "ServeHTTP v filters s =
      Ok (Scraping (sh_collectors (unfilteredHandler (srv_handler s))), s\<lparr>srv_filtered := srv_filtered s + 1\<rparr>)"
proof -
  have "NewPodmanCollector v (srv_tables s) =
      Ok (sh_collectors (unfilteredHandler (srv_handler s)), srv_tables s)"
    using assms(1) by (simp add: serve_inv_def)
  from innerHandler_eq [OF this, of "disableExporterMetrics (srv_handler s)" "maxRequests (srv_handler s)" filters]
  show ?thesis using assms(2) by (auto simp: ServeHTTP_def admit_def)
qed

lemma ServeHTTP_unfiltered:
  assumes "serve_inv v maxReq names s"
  shows "ServeHTTP v [] s =
    (if 0 < sint maxReq \<and> sint maxReq \<le> int (srv_running s) then Ok (ServiceUnavailable, s)
     else Ok (Scraping (sh_collectors (unfilteredHandler (srv_handler s))), s\<lparr>srv_running := srv_running s + 1\<rparr>))"
  using assms by (auto simp: ServeHTTP_def serve_inv_def admit_def)

lemma ServeHTTP_inv:
  assumes "serve_inv v maxReq names s" and "ServeHTTP v filters s = Ok (r, s')"
  shows "serve_inv v maxReq names s'"
  using assms ServeHTTP_filtered [OF assms(1)] ServeHTTP_unfiltered [OF assms(1)]
  by (cases "filters = []") (auto simp: serve_inv_def split: if_splits)

lemma serve_step_inv: "serve_step v s s' \<Longrightarrow> serve_inv v maxReq names s \<Longrightarrow> serve_inv v maxReq names s'"
proof (induction rule: serve_step.induct)
  case (request filters s r s')
  then show ?case by (blast intro: ServeHTTP_inv)
qed (auto simp: serve_inv_def)

interpretation serving: inductive_invariant
  "\<lambda>s. tables_wf v t \<and> serve_init v disable maxReq t s" "serve_step v"
  "serve_inv v maxReq (enabled_names t)"
  for v disable maxReq t
  using serve_init_inv serve_step_inv by unfold_locales blast+

section \<open>The limit as a semaphore\<close>

text \<open>
  The specification of the limit: a counting semaphore for the requests without a filter, none for
  the others. The pair counts the running requests of the two kinds.
\<close>

inductive limit_step :: "int \<Rightarrow> nat \<times> nat \<Rightarrow> nat \<times> nat \<Rightarrow> bool" for limit :: int where
  acquire: "limit \<le> 0 \<or> int n < limit \<Longrightarrow> limit_step limit (n, m) (Suc n, m)"
| release: "limit_step limit (Suc n, m) (n, m)"
| start_filtered: "limit_step limit (n, m) (n, Suc m)"
| end_filtered: "limit_step limit (n, Suc m) (n, m)"

inductive_simps limit_step_iff: "limit_step limit (n, m) (n', m')"

definition running :: "server \<Rightarrow> nat \<times> nat" where
  "running s = (srv_running s, srv_filtered s)"

lemma ServeHTTP_limit:
  assumes "serve_inv v maxReq names s" and "ServeHTTP v filters s = Ok (r, s')"
  shows "running s' = running s \<or> limit_step (sint maxReq) (running s) (running s')"
  using assms ServeHTTP_filtered [OF assms(1)] ServeHTTP_unfiltered [OF assms(1)]
  by (cases "filters = []")
     (auto simp: running_def limit_step_iff split: if_splits)

lemma serve_step_limit:
  "serve_step v s s' \<Longrightarrow> serve_inv v maxReq names s \<Longrightarrow>
     running s' = running s \<or> limit_step (sint maxReq) (running s) (running s')"
proof (induction rule: serve_step.induct)
  case (request filters s r s')
  then show ?case using ServeHTTP_limit by blast
qed (auto simp: running_def limit_step_iff)

interpretation limited: simulation
  "\<lambda>s. tables_wf v t \<and> serve_init v disable maxReq t s" "serve_step v"
  "serve_inv v maxReq (enabled_names t)"
  "\<lambda>a. a = (0, 0)" "limit_step (sint maxReq)" running
  for v disable maxReq t
  by unfold_locales (auto simp: serve_init_def running_def dest: serve_step_limit [rotated])

text \<open>The semaphore keeps its promise.\<close>

interpretation limit: inductive_invariant
  "\<lambda>a. a = (0, 0)" "limit_step limit" "\<lambda>(n, m). 0 < limit \<longrightarrow> int n \<le> limit"
  for limit
  by unfold_locales (auto simp: limit_step_iff)

text \<open>
  Every load the semaphore allows is reached: requests without a filter up to the limit, then any
  number of filtered ones.
\<close>

lemma loads_reached:
  assumes "reach init (serve_step v) s" and "serve_inv v maxReq names s" and "running s = (0, 0)"
    and "0 < sint maxReq \<longrightarrow> int n \<le> sint maxReq"
  shows "\<exists>s'. reach init (serve_step v) s' \<and> serve_inv v maxReq names s' \<and> running s' = (n, m)"
proof -
  have unfiltered: "\<exists>s'. reach init (serve_step v) s' \<and> serve_inv v maxReq names s' \<and> running s' = (n, 0)"
    using assms(4)
  proof (induction n)
    case (Suc n)
    then obtain s1 where s1: "reach init (serve_step v) s1" "serve_inv v maxReq names s1" "running s1 = (n, 0)"
      by auto
    let ?s = "s1\<lparr>srv_running := srv_running s1 + 1\<rparr>"
    have "\<exists>r. ServeHTTP v [] s1 = Ok (r, ?s)"
      using ServeHTTP_unfiltered [OF s1(2)] s1(3) Suc.prems by (auto simp: running_def)
    then obtain r where r: "ServeHTTP v [] s1 = Ok (r, ?s)" by blast
    show ?case
      using reach_step [OF s1(1) request [OF r]] ServeHTTP_inv [OF s1(2) r] s1(3)
      by (intro exI [of _ ?s]) (simp add: running_def)
  qed (use assms in blast)
  show ?thesis
  proof (induction m)
    case (Suc m)
    then obtain s1 where s1: "reach init (serve_step v) s1" "serve_inv v maxReq names s1" "running s1 = (n, m)"
      by blast
    let ?s = "s1\<lparr>srv_filtered := srv_filtered s1 + 1\<rparr>"
    have r: "ServeHTTP v [''container''] s1 =
        Ok (Scraping (sh_collectors (unfilteredHandler (srv_handler s1))), ?s)"
      using ServeHTTP_filtered [OF s1(2)] by simp
    show ?case
      using reach_step [OF s1(1) request [OF r]] ServeHTTP_inv [OF s1(2) r] s1(3)
      by (intro exI [of _ ?s]) (simp add: running_def)
  qed (use unfiltered in blast)
qed

end
