(* ===== verification/Pdcs_Events.thy ===== *)
theory Pdcs_Events
  imports Pdcs_Image Reachability
begin

text \<open>
  \<open>pdcs/events.go\<close>: \<open>StartEventStreamer\<close> as a step relation. Three kinds of goroutine take part:
  the main loop, which is blocked on \<open>restartChannel\<close> during a round; one event reader loop per
  round; and the engine's event source, one call of \<open>Events\<close> per round, which is outside the
  program and may at any time send a result, close its channel, or return. Unbuffered channels are
  rendezvous, so a receive is one step; the event channel has a buffer of one.

  An engine result carries an event or, on a malformed log line, an error and no event
  (\<open>ReadResult{Error: err}\<close>, whose \<open>Event\<close> is a nil pointer). \<open>es_answers\<close> is a history variable: the
  answers the image engine has given to the calls of \<open>updateImages\<close>, first to last.
\<close>

datatype event_type = ImageEvent | OtherEvent

record read_result =
  rr_Event :: "event_type option"
  rr_Error :: "go_error option"

datatype proc_status = Running | FatalExit go_error | Crashed go_panic

datatype reader_state = Reading | Restarting

type_synonym image_answer = "go_error + image_summary list"

record streamer =
  es_status :: proc_status
  es_buffer :: "read_result list"
  es_closed :: bool
  es_reader :: reader_state
  es_sources :: nat
  es_errs :: "go_error list"
  es_images :: ImageReport
  es_answers :: "image_answer list"

text \<open>What the reader does with a received result.\<close>

definition wants_update :: "bool \<Rightarrow> read_result \<Rightarrow> bool outcome" where
  "wants_update updateImage r =
     (if \<not> updateImage then Ok False
      else case rr_Event r of
        None \<Rightarrow> Panic NilPointerDereference
      | Some t \<Rightarrow> Ok (t = ImageEvent))"

text \<open>The call of \<open>updateImages\<close>, answered by the engine with \<open>a\<close>.\<close>

definition refresh_images :: "ref_parser \<Rightarrow> image_answer \<Rightarrow> streamer \<Rightarrow> streamer" where
  "refresh_images parse a s =
     s\<lparr>es_images := updateImages parse a (es_images s), es_answers := es_answers s @ [a]\<rparr>"

text \<open>The state when the first round has started, after the initial update if there is one.\<close>

definition first_round :: "ImageReport \<Rightarrow> streamer" where
  "first_round imgs =
     \<lparr>es_status = Running, es_buffer = [], es_closed = False, es_reader = Reading,
      es_sources = 1, es_errs = [], es_images = imgs, es_answers = []\<rparr>"

definition stream_init :: "ref_parser \<Rightarrow> bool \<Rightarrow> streamer \<Rightarrow> bool" where
  "stream_init parse updateImage s \<longleftrightarrow>
     (if updateImage then \<exists>a. s = refresh_images parse a (first_round initial_imageRep)
      else s = first_round initial_imageRep)"

text \<open>
  What the engine does: the event source sends, closes its channel or returns from \<open>Events\<close>, with
  an error that waits on \<open>errChannel\<close> or without.
\<close>

inductive source_step :: "streamer \<Rightarrow> streamer \<Rightarrow> bool" where
  source_send:
    "\<lbrakk>es_status s = Running; \<not> es_closed s; es_buffer s = []\<rbrakk> \<Longrightarrow>
       source_step s (s\<lparr>es_buffer := [r]\<rparr>)"
| source_close:
    "\<lbrakk>es_status s = Running; \<not> es_closed s\<rbrakk> \<Longrightarrow> source_step s (s\<lparr>es_closed := True\<rparr>)"
| source_return:
    "\<lbrakk>es_status s = Running; 0 < es_sources s\<rbrakk> \<Longrightarrow>
       source_step s (s\<lparr>es_sources := es_sources s - 1\<rparr>)"
| source_fail:
    "\<lbrakk>es_status s = Running; 0 < es_sources s\<rbrakk> \<Longrightarrow>
       source_step s (s\<lparr>es_sources := es_sources s - 1, es_errs := es_errs s @ [e]\<rparr>)"

text \<open>What the program does: the cases of the reader loop's \<open>select\<close>, and the next round.\<close>

inductive own_step :: "ref_parser \<Rightarrow> bool \<Rightarrow> streamer \<Rightarrow> streamer \<Rightarrow> bool"
  for parse :: ref_parser and updateImage :: bool where
  reader_skip:
    "\<lbrakk>es_status s = Running; es_reader s = Reading; es_buffer s = r # rest;
      wants_update updateImage r = Ok False\<rbrakk> \<Longrightarrow>
       own_step parse updateImage s (s\<lparr>es_buffer := rest\<rparr>)"
| reader_update:
    "\<lbrakk>es_status s = Running; es_reader s = Reading; es_buffer s = r # rest;
      wants_update updateImage r = Ok True\<rbrakk> \<Longrightarrow>
       own_step parse updateImage s (refresh_images parse a (s\<lparr>es_buffer := rest\<rparr>))"
| reader_crash:
    "\<lbrakk>es_status s = Running; es_reader s = Reading; es_buffer s = r # rest;
      wants_update updateImage r = Panic p\<rbrakk> \<Longrightarrow>
       own_step parse updateImage s (s\<lparr>es_buffer := rest, es_status := Crashed p\<rparr>)"
| reader_eof:
    "\<lbrakk>es_status s = Running; es_reader s = Reading; es_buffer s = []; es_closed s\<rbrakk> \<Longrightarrow>
       own_step parse updateImage s (s\<lparr>es_reader := Restarting\<rparr>)"
| reader_fatal:
    "\<lbrakk>es_status s = Running; es_reader s = Reading; es_errs s = errs1 @ e # errs2\<rbrakk> \<Longrightarrow>
       own_step parse updateImage s (s\<lparr>es_errs := errs1 @ errs2, es_status := FatalExit e\<rparr>)"
| main_restart:
    "\<lbrakk>es_status s = Running; es_reader s = Restarting\<rbrakk> \<Longrightarrow>
       own_step parse updateImage s
         (s\<lparr>es_buffer := [], es_closed := False, es_reader := Reading,
            es_sources := es_sources s + 1\<rparr>)"

inductive_cases own_stepE: "own_step parse updateImage s t"

inductive stream_step :: "ref_parser \<Rightarrow> bool \<Rightarrow> streamer \<Rightarrow> streamer \<Rightarrow> bool"
  for parse :: ref_parser and updateImage :: bool where
  by_source: "source_step s t \<Longrightarrow> stream_step parse updateImage s t"
| by_program: "own_step parse updateImage s t \<Longrightarrow> stream_step parse updateImage s t"

section \<open>Invariants\<close>

text \<open>
  The image report is the one the answers received so far determine, whatever the order of the
  events: without image updates it stays as it was at the start.
\<close>

definition stream_inv :: "ref_parser \<Rightarrow> bool \<Rightarrow> streamer \<Rightarrow> bool" where
  "stream_inv parse updateImage s \<longleftrightarrow>
     es_images s = fold (updateImages parse) (es_answers s) initial_imageRep \<and>
     (es_answers s \<noteq> [] \<longleftrightarrow> updateImage) \<and>
     length (es_buffer s) \<le> 1 \<and>
     (es_reader s = Restarting \<longrightarrow> es_closed s \<and> es_buffer s = []) \<and>
     (\<forall>p. es_status s = Crashed p \<longrightarrow> updateImage \<and> p = NilPointerDereference)"

lemma wants_update_cases:
  "wants_update u r = Ok True \<Longrightarrow> u \<and> rr_Event r = Some ImageEvent"
  "wants_update u r = Panic p \<Longrightarrow> u \<and> rr_Event r = None \<and> p = NilPointerDereference"
  by (auto simp: wants_update_def split: if_splits option.splits)

lemma stream_init_inv: "stream_init parse u s \<Longrightarrow> stream_inv parse u s"
  by (auto simp: stream_init_def stream_inv_def refresh_images_def first_round_def split: if_splits)

lemma source_step_inv: "source_step s t \<Longrightarrow> stream_inv parse u s \<Longrightarrow> stream_inv parse u t"
  by (induction rule: source_step.induct) (auto simp: stream_inv_def)

lemma own_step_inv: "own_step parse u s t \<Longrightarrow> stream_inv parse u s \<Longrightarrow> stream_inv parse u t"
  by (induction rule: own_step.induct)
     (auto simp: stream_inv_def refresh_images_def dest: wants_update_cases)

lemma stream_step_inv: "stream_step parse u s t \<Longrightarrow> stream_inv parse u s \<Longrightarrow> stream_inv parse u t"
  by (induction rule: stream_step.induct) (auto intro: source_step_inv own_step_inv)

interpretation event_stream: inductive_invariant
  "stream_init parse u" "stream_step parse u" "stream_inv parse u"
  for parse u
  using stream_init_inv stream_step_inv by unfold_locales

section \<open>Progress\<close>

text \<open>A dead process takes no step.\<close>

lemma no_own_step_when_dead: "own_step parse u s t \<Longrightarrow> es_status s = Running"
  by (auto elim: own_stepE)

lemma no_step_when_dead: "stream_step parse u s t \<Longrightarrow> es_status s = Running"
  by (auto elim: stream_step.cases source_step.cases dest: no_own_step_when_dead)

text \<open>What the program has left to do until it waits for the engine again.\<close>

fun round_work :: "reader_state \<Rightarrow> bool \<Rightarrow> nat" where
  "round_work Reading atEof = (if atEof then 2 else 0)"
| "round_work Restarting atEof = 1"

definition stream_work :: "streamer \<Rightarrow> nat" where
  "stream_work s =
     length (es_buffer s) + round_work (es_reader s) (es_closed s)
     + (if es_status s = Running then 1 else 0)"

lemma own_step_work: "own_step parse u s t \<Longrightarrow> stream_work t < stream_work s"
  by (induction rule: own_step.induct) (auto simp: stream_work_def refresh_images_def)

lemma own_steps_terminate: "wfP (own_step parse u)\<inverse>\<inverse>"
  by (rule wfp_if_convertible_to_nat [of _ stream_work]) (simp add: own_step_work)

definition waiting :: "streamer \<Rightarrow> bool" where
  "waiting s \<longleftrightarrow>
     es_reader s = Reading \<and> es_buffer s = [] \<and> \<not> es_closed s \<and> es_errs s = []"

lemma own_step_available:
  assumes "es_status s = Running" and "\<not> waiting s"
  shows "\<exists>t. own_step parse u s t"
proof (cases "es_reader s")
  case Restarting
  then show ?thesis using main_restart [OF assms(1)] by blast
next
  case Reading
  consider (err) e errs where "es_errs s = [] @ e # errs" | (result) r rest where "es_buffer s = r # rest"
    | (atEof) "es_buffer s = []" "es_closed s"
    using assms(2) Reading by (cases "es_errs s"; cases "es_buffer s") (auto simp: waiting_def)
  then show ?thesis
  proof cases
    case err
    then show ?thesis using reader_fatal [OF assms(1) Reading] by blast
  next
    case result
    show ?thesis
    proof (cases "wants_update u r")
      case (Ok b)
      then show ?thesis
        using reader_skip [OF assms(1) Reading result, of u parse]
          reader_update [OF assms(1) Reading result, of u parse undefined]
        by (cases b) auto
    next
      case (Panic p)
      then show ?thesis using reader_crash [OF assms(1) Reading result] by blast
    qed (auto simp: wants_update_def split: if_splits option.splits)
  next
    case atEof
    then show ?thesis using reader_eof [OF assms(1) Reading] by blast
  qed
qed

lemma waiting_no_own_step: "waiting s \<Longrightarrow> \<not> own_step parse u s t"
  by (auto simp: waiting_def elim: own_stepE)

lemma own_step_stuck_iff:
  "(\<nexists>t. own_step parse u s t) \<longleftrightarrow> es_status s \<noteq> Running \<or> waiting s"
  using own_step_available waiting_no_own_step no_own_step_when_dead by blast

text \<open>Answers are only added, and an event of an image in the buffer adds one.\<close>

lemma own_step_answers: "own_step parse u s t \<Longrightarrow> prefix (es_answers s) (es_answers t)"
  by (induction rule: own_step.induct) (simp_all add: refresh_images_def)

lemma own_steps_answers: "(own_step parse u)\<^sup>*\<^sup>* s t \<Longrightarrow> prefix (es_answers s) (es_answers t)"
  by (induction rule: rtranclp_induct) (auto dest: own_step_answers intro: prefix_order.trans)

lemma own_steps_dead: "(own_step parse u)\<^sup>*\<^sup>* s t \<Longrightarrow> es_status s \<noteq> Running \<Longrightarrow> t = s"
  by (induction rule: converse_rtranclp_induct) (auto dest: no_own_step_when_dead)

lemma image_event_step:
  assumes "own_step parse True s t" and "es_reader s = Reading" and "es_buffer s = [r]"
    and "rr_Event r = Some ImageEvent"
  shows "es_status t \<noteq> Running \<or> length (es_answers s) < length (es_answers t)"
  using assms by (auto elim!: own_stepE simp: refresh_images_def wants_update_def)

lemma image_event_answered:
  assumes "reach (stream_init parse True) (stream_step parse True) s"
    and "es_buffer s = [r]" and "rr_Event r = Some ImageEvent"
    and "(own_step parse True)\<^sup>*\<^sup>* s t" and "waiting t" and "es_status t = Running"
  shows "length (es_answers s) < length (es_answers t)"
  using assms(4)
proof (cases rule: converse_rtranclpE)
  case base
  then show ?thesis using assms(2,5) by (simp add: waiting_def)
next
  case (step s')
  have "es_reader s = Reading"
    using event_stream.reach_inv [OF assms(1)] assms(2) by (cases "es_reader s") (auto simp: stream_inv_def)
  then have "es_status s' \<noteq> Running \<or> length (es_answers s) < length (es_answers s')"
    using image_event_step [OF step(1) _ assms(2,3)] by blast
  moreover have "length (es_answers s') \<le> length (es_answers t)"
    using own_steps_answers [OF step(2)] by (rule prefix_length_le)
  ultimately show ?thesis using own_steps_dead [OF step(2)] assms(6) by auto
qed

lemma own_steps_reach:
  "(own_step parse u)\<^sup>*\<^sup>* s t \<Longrightarrow> reach init (stream_step parse u) s \<Longrightarrow> reach init (stream_step parse u) t"
  by (induction rule: rtranclp_induct) (auto intro: reach_step by_program)

end
