(* ===== verification/Exporter_Start.thy ===== *)
theory Exporter_Start
  imports Exporter_Handler Pdcs_Events
begin

text \<open>
  \<open>exporter/exporter.go\<close> (\<open>Start\<close>), the tickers of \<open>pdcs\<close>, and \<open>cmd/root.go\<close> (\<open>preRun\<close>, \<open>run\<close>,
  \<open>Execute\<close>). A start ends by returning, by a panic, or by an exit of the process; the state says
  how far it came. What the engine answers, what the HTTP server returns and how the multiplexer of
  \<open>net/http\<close> treats patterns (which are well formed, which conflict, which one a path is routed to)
  are the record \<open>environment\<close>.
\<close>

record environment =
  env_validPattern :: "string \<Rightarrow> bool"
  env_conflict :: "string \<Rightarrow> string \<Rightarrow> bool"
  env_match :: "string \<Rightarrow> string \<Rightarrow> bool"
  env_route :: "string list \<Rightarrow> string \<Rightarrow> string option"
  env_containerEngineErr :: "go_error option"
  env_imageEngineErr :: "go_error option"
  env_sizes :: "go_error + list_container list"
  env_df :: "go_error + df_report"
  env_serve :: "go_error option"

text \<open>The handlers \<open>Start\<close> registers.\<close>

datatype page = MetricsPage | IndexPage

datatype log_level = LevelDebug | LevelInfo | LevelWarn | LevelError

record exporter_state =
  ex_logLevel :: log_level
  ex_labels :: label_vars
  ex_tables :: collector_tables
  ex_patterns :: "(string \<times> page) list"
  ex_handler :: "handler option"
  ex_statsTimeout :: int64
  ex_sizeCache :: containerSizeCache
  ex_diskUsage :: diskUsageReport
  ex_streamer :: "bool option"
  ex_cacheTicker :: "int64 option"
  ex_diskUsageTicker :: "int64 option"
  ex_listening :: bool

definition initial_state :: exporter_state where
  "initial_state =
     \<lparr>ex_logLevel = LevelInfo, ex_labels = initial_label_vars, ex_tables = init_tables, ex_patterns = [], ex_handler = None,
      ex_statsTimeout = 1000000000, ex_sizeCache = initial_size_cache,
      ex_diskUsage = initial_diskUsageRep, ex_streamer = None, ex_cacheTicker = None,
      ex_diskUsageTicker = None, ex_listening = False\<rparr>"

datatype run_result =
    Returned "go_error option"
  | Panicked go_panic
  | Exited nat

section \<open>The steps of Start\<close>

text \<open>\<open>Level.Set\<close> of the vendored logging library.\<close>

definition Level_Set :: "string \<Rightarrow> go_error + log_level" where
  "Level_Set s =
     (let l = go_to_lower s in
      if l = ''debug'' then Inr LevelDebug
      else if l = ''info'' then Inr LevelInfo
      else if l = ''warn'' then Inr LevelWarn
      else if l = ''error'' then Inr LevelError
      else Inl (LogLevelError s))"

text \<open>\<open>http.Handle\<close> on the default mux: a malformed (or empty) or a conflicting pattern panics.\<close>

definition http_Handle :: "environment \<Rightarrow> string \<Rightarrow> page \<Rightarrow> exporter_state \<Rightarrow> exporter_state outcome" where
  "http_Handle env p page s =
     (if p = [] \<or> \<not> env_validPattern env p \<or> (\<exists>(q, _) \<in> set (ex_patterns s). env_conflict env q p)
      then Panic (HttpPatternConflict p)
      else Ok (s\<lparr>ex_patterns := ex_patterns s @ [(p, page)]\<rparr>))"

text \<open>The text of the index page, with the link it shows.\<close>

definition index_link :: string where
  "index_link = ''/metrics''"

definition index_page :: string where
  "index_page =
     (let line = [CHR 0x0A, CHR 0x09, CHR 0x09, CHR 0x09]; quote = [CHR 0x22] in
      ''<html>'' @ line @ ''<head><title>Podman Exporter</title></head>'' @ line @ ''<body>'' @ line
      @ ''<h1>Podman Exporter</h1>'' @ line @ ''<p><a href='' @ quote @ index_link @ quote
      @ ''>Metrics</a></p>'' @ line @ ''</body>'' @ line @ ''</html>'')"

text \<open>The handler a path of a request is routed to.\<close>

definition page_of :: "environment \<Rightarrow> exporter_state \<Rightarrow> string \<Rightarrow> page option" where
  "page_of env s path =
     (case env_route env (map fst (ex_patterns s)) path of
        None \<Rightarrow> None
      | Some p \<Rightarrow> map_of (ex_patterns s) p)"

definition NewTicker :: "int64 \<Rightarrow> int64 outcome" where
  "NewTicker d = (if d \<le>s 0 then Panic NonPositiveTickerInterval else Ok d)"

definition SetContainerStatsTimeout :: "int64 \<Rightarrow> exporter_state \<Rightarrow> exporter_state" where
  "SetContainerStatsTimeout timeout s = s\<lparr>ex_statsTimeout := timeout\<rparr>"

text \<open>The first refresh is made before the ticker exists.\<close>

definition StartCacheSizeTicker ::
  "environment \<Rightarrow> int64 \<Rightarrow> exporter_state \<Rightarrow> exporter_state outcome" where
  "StartCacheSizeTicker env duration s =
     bind_outcome (updateContainerSize (env_sizes env) (ex_sizeCache s)) (\<lambda>c.
     bind_outcome (NewTicker duration) (\<lambda>d.
       Ok (s\<lparr>ex_sizeCache := c, ex_cacheTicker := Some d\<rparr>)))"

definition StartDiskUsageTicker ::
  "environment \<Rightarrow> int64 \<Rightarrow> exporter_state \<Rightarrow> exporter_state outcome" where
  "StartDiskUsageTicker env duration s =
     (let s = s\<lparr>ex_diskUsage := updateDiskUsage (env_df env) (ex_diskUsage s)\<rparr> in
     bind_outcome (NewTicker duration) (\<lambda>d. Ok (s\<lparr>ex_diskUsageTicker := Some d\<rparr>)))"

text \<open>
  \<open>SetupRegistry\<close> creates the two engines of podman and the map of the size cache; \<open>log.Fatal\<close> on an
  engine's error exits with status 1.
\<close>

definition SetupRegistry :: "environment \<Rightarrow> exporter_state \<Rightarrow> nat + exporter_state" where
  "SetupRegistry env s =
     (if env_containerEngineErr env \<noteq> None then Inl 1
      else if env_imageEngineErr env \<noteq> None then Inl 1
      else Inr (s\<lparr>ex_sizeCache := SetupRegistry_cache (ex_sizeCache s)\<rparr>))"

text \<open>From the options to the call of \<open>ListenAndServe\<close>.\<close>

definition setup_collectors :: "exporterOptions \<Rightarrow> exporter_state \<Rightarrow> exporter_state" where
  "setup_collectors opts s =
     (let (v, t) = setEnabledCollectors opts (ex_labels s, ex_tables s)
      in s\<lparr>ex_labels := v, ex_tables := t\<rparr>)"

definition setup_http :: "environment \<Rightarrow> exporterOptions \<Rightarrow> exporter_state \<Rightarrow> exporter_state outcome" where
  "setup_http env opts s =
     bind_outcome (newHandler (ex_labels s) (webDisableExporterMetrics opts) (webMaxRequests opts)
       (ex_tables s)) (\<lambda>(h, _, t).
     bind_outcome (http_Handle env (webTelemetryPath opts) MetricsPage
       (s\<lparr>ex_handler := Some h, ex_tables := t\<rparr>)) (\<lambda>s.
     http_Handle env ''/'' IndexPage s))"

definition setup_pdcs :: "environment \<Rightarrow> exporterOptions \<Rightarrow> exporter_state \<Rightarrow> exporter_state outcome" where
  "setup_pdcs env opts s =
     (let s = s\<lparr>ex_streamer := Some (enableAll opts \<or> enableImages opts)\<rparr> in
     bind_outcome (StartCacheSizeTicker env (cacheDuration opts) s) (\<lambda>s.
       if enableAll opts \<or> enableDiskUsage opts
       then StartDiskUsageTicker env (cacheDuration opts) s else Ok s))"

definition Start :: "environment \<Rightarrow> flag_set \<Rightarrow> exporter_state \<Rightarrow> run_result \<times> exporter_state" where
  "Start env fs s =
     (case parseOptions fs of
        Inl e \<Rightarrow> (Returned (Some e), s)
      | Inr opts \<Rightarrow>
          (case Level_Set (if debug opts then ''debug'' else ''info'') of
             Inl e \<Rightarrow> (Returned (Some e), s)
           | Inr level \<Rightarrow>
               (let s = setup_collectors opts (s\<lparr>ex_logLevel := level\<rparr>) in
                case setup_http env opts s of
                  Panic p \<Rightarrow> (Panicked p, s)
                | Err e \<Rightarrow> (Returned (Some e), s)
                | Ok s \<Rightarrow>
                    (let s = SetContainerStatsTimeout (containerStatsTimeout opts) s in
                     case SetupRegistry env s of
                       Inl code \<Rightarrow> (Exited code, s)
                     | Inr s \<Rightarrow>
                         (case setup_pdcs env opts s of
                            Panic p \<Rightarrow> (Panicked p, s)
                          | Err e \<Rightarrow> (Returned (Some e), s)
                          | Ok s \<Rightarrow> (Returned (env_serve env), s\<lparr>ex_listening := True\<rparr>))))))"

section \<open>The command\<close>

text \<open>\<open>preRun\<close>: an error, or an exit after printing the version, or going on.\<close>

definition preRun :: "flag_set \<Rightarrow> go_error + nat option" where
  "preRun fs =
     bind_result (GetBool fs ''version'') (\<lambda>printVersion.
       Inr (if printVersion then Some 1 else None))"

definition run :: "environment \<Rightarrow> flag_set \<Rightarrow> exporter_state \<Rightarrow> run_result \<times> exporter_state" where
  "run env fs s =
     (case Start env fs s of
        (Returned (Some e), s') \<Rightarrow> (Exited 1, s')
      | r \<Rightarrow> r)"

text \<open>
  \<open>Execute\<close>: cobra parses the arguments, calls \<open>PreRunE\<close> and, when that returns nil, \<open>Run\<close>; every
  error ends in exit status 1.
\<close>

definition Execute ::
  "environment \<Rightarrow> (string \<times> flag_value) list \<Rightarrow> exporter_state \<Rightarrow> run_result \<times> exporter_state" where
  "Execute env args s =
     (case set_flags args default_flags of
        Inl e \<Rightarrow> (Exited 1, s)
      | Inr fs \<Rightarrow>
          (case preRun fs of
             Inl e \<Rightarrow> (Exited 1, s)
           | Inr (Some code) \<Rightarrow> (Exited code, s)
           | Inr None \<Rightarrow> run env fs s))"

definition main :: "environment \<Rightarrow> (string \<times> flag_value) list \<Rightarrow> run_result \<times> exporter_state" where
  "main env args = Execute env args initial_state"

section \<open>When the exporter comes up\<close>

text \<open>
  What the documentation of \<open>net/http\<close> says of the default mux: a pattern conflicts with itself, and
  \<open>/\<close> matches every path but is less specific than any other pattern.
\<close>

definition mux_documented :: "environment \<Rightarrow> bool" where
  "mux_documented env \<longleftrightarrow>
     env_conflict env ''/'' ''/'' \<and>
     (\<forall>p path. env_route env [p, ''/''] path = Some (if env_match env p path then p else ''/''))"

text \<open>The mux takes the pattern beside that of the index page.\<close>

definition pattern_accepted :: "environment \<Rightarrow> string \<Rightarrow> bool" where
  "pattern_accepted env p \<longleftrightarrow>
     p \<noteq> [] \<and> env_validPattern env p \<and> env_validPattern env ''/'' \<and> \<not> env_conflict env p ''/''"

definition level_of :: "exporterOptions \<Rightarrow> log_level" where
  "level_of opts = (if debug opts then LevelDebug else LevelInfo)"

lemma Level_Set_options: "Level_Set (if debug opts then ''debug'' else ''info'') = Inr (level_of opts)"
proof -
  have "Level_Set ''debug'' = Inr LevelDebug" "Level_Set ''info'' = Inr LevelInfo" by code_simp+
  then show ?thesis by (simp add: level_of_def)
qed

text \<open>The state after the collectors are set up.\<close>

definition collectors_set :: "exporterOptions \<Rightarrow> exporter_state" where
  "collectors_set opts = setup_collectors opts (initial_state\<lparr>ex_logLevel := level_of opts\<rparr>)"

lemma newHandler_ok:
  assumes "tables_wf v t"
  shows "\<exists>h logged t'. newHandler v disable maxReq t = Ok (h, logged, t') \<and>
    maxRequests h = maxReq \<and> sh_maxInFlight (unfilteredHandler h) = sint maxReq \<and>
    map fst (sh_collectors (unfilteredHandler h)) = enabled_names t \<and>
    collectors_built v (sh_collectors (unfilteredHandler h)) \<and> tables_wf v t' \<and>
    enabled_names t' = enabled_names t"
  using innerHandler_ok [OF assms, of disable maxReq "[]"] by (auto simp: newHandler_def)

lemma setup_pdcs_total:
  assumes "cache (ex_sizeCache s) \<noteq> None"
  shows "if 0 <s cacheDuration opts
    then \<exists>s'. setup_pdcs env opts s = Ok s' \<and> ex_handler s' = ex_handler s \<and> ex_labels s' = ex_labels s \<and>
       ex_streamer s' = Some (enableAll opts \<or> enableImages opts) \<and>
       ex_cacheTicker s' = Some (cacheDuration opts) \<and> cache (ex_sizeCache s') \<noteq> None \<and>
       ex_tables s' = ex_tables s \<and> ex_statsTimeout s' = ex_statsTimeout s \<and>
       ex_logLevel s' = ex_logLevel s \<and> ex_patterns s' = ex_patterns s
    else setup_pdcs env opts s = Panic NonPositiveTickerInterval"
proof -
  obtain c where "updateContainerSize (env_sizes env) (ex_sizeCache s) = Ok c" "cache c \<noteq> None"
    using updateContainerSize_total [OF assms, of "env_sizes env"] by auto
  then show ?thesis
    by (auto simp: setup_pdcs_def StartCacheSizeTicker_def StartDiskUsageTicker_def NewTicker_def
        Let_def signed.not_less)
qed

text \<open>The label variables after the first start.\<close>

definition label_options :: "exporterOptions \<Rightarrow> label_vars" where
  "label_options opts =
     \<lparr>collectorSync = True, storeLabels = opt_storeLabels opts,
      enhanceAllMetrics = enhanceMetrics opts,
      whitelistedLabels = go_split CHR '','' (whiteListedLabels opts)\<rparr>"

lemma setup_collectors_initial:
  "collectors_set opts =
     initial_state\<lparr>ex_logLevel := level_of opts, ex_labels := label_options opts,
       ex_tables := snd (setEnabledCollectors opts (initial_label_vars, init_tables))\<rparr>"
  by (simp add: collectors_set_def setup_collectors_def initial_state_def setEnabledCollectors_def Let_def
      RegisterVariableLabels_def initial_label_vars_def label_options_def)

lemma setup_collectors_sel:
  "ex_labels (collectors_set opts) = label_options opts"
  "ex_tables (collectors_set opts) =
     snd (setEnabledCollectors opts (initial_label_vars, init_tables))"
  "ex_patterns (collectors_set opts) = []"
  "\<not> ex_listening (collectors_set opts)"
  "ex_logLevel (collectors_set opts) = level_of opts"
  unfolding setup_collectors_initial by (simp_all add: initial_state_def)

text \<open>The handler of a started exporter has the collectors the user asked for, built as the options say.\<close>

definition handler_for :: "exporterOptions \<Rightarrow> handler \<Rightarrow> bool" where
  "handler_for opts h \<longleftrightarrow>
     map fst (sh_collectors (unfilteredHandler h)) = filter (wanted opts) collector_names \<and>
     collectors_built (label_options opts) (sh_collectors (unfilteredHandler h)) \<and>
     sh_maxInFlight (unfilteredHandler h) = sint (webMaxRequests opts)"

lemma setup_http_initial:
  "if pattern_accepted env (webTelemetryPath opts)
   then \<exists>s h. setup_http env opts (collectors_set opts) = Ok s \<and>
      ex_handler s = Some h \<and> handler_for opts h \<and> ex_labels s = label_options opts \<and>
      tables_wf (label_options opts) (ex_tables s) \<and> ex_logLevel s = level_of opts \<and>
      ex_patterns s = [(webTelemetryPath opts, MetricsPage), (''/'', IndexPage)]
   else \<exists>p. setup_http env opts (collectors_set opts) = Panic p"
proof -
  let ?t = "snd (setEnabledCollectors opts (initial_label_vars, init_tables))"
  obtain h logged t' where h: "newHandler (label_options opts) (webDisableExporterMetrics opts)
        (webMaxRequests opts) ?t = Ok (h, logged, t')" "handler_for opts h"
      "tables_wf (label_options opts) t'"
    using newHandler_ok [where v = "label_options opts" and t = ?t
        and disable = "webDisableExporterMetrics opts" and maxReq = "webMaxRequests opts",
        OF setEnabledCollectors_wf]
    by (auto simp: handler_for_def setEnabledCollectors_names)
  then show ?thesis
    by (auto simp: setup_http_def setup_collectors_sel http_Handle_def pattern_accepted_def)
qed

lemma setup_http_listening: "setup_http env opts s = Ok s' \<Longrightarrow> ex_listening s' = ex_listening s"
  by (auto simp: setup_http_def http_Handle_def outcome split: if_splits prod.splits)

text \<open>What a listening exporter has become of.\<close>

definition serves :: "exporterOptions \<Rightarrow> exporter_state \<Rightarrow> bool" where
  "serves opts s \<longleftrightarrow>
     ex_listening s \<and> ex_labels s = label_options opts \<and> ex_logLevel s = level_of opts \<and>
     ex_patterns s = [(webTelemetryPath opts, MetricsPage), (''/'', IndexPage)] \<and>
     ex_statsTimeout s = containerStatsTimeout opts \<and>
     ex_streamer s = Some (wanted opts ''image'') \<and> cache (ex_sizeCache s) \<noteq> None \<and>
     ex_cacheTicker s = Some (cacheDuration opts)"

lemma Start_steps:
  assumes "parseOptions fs = Inr opts"
  shows "Start env fs initial_state =
      (case setup_http env opts (collectors_set opts) of
         Panic p \<Rightarrow> (Panicked p, collectors_set opts)
       | Err e \<Rightarrow> (Returned (Some e), collectors_set opts)
       | Ok s \<Rightarrow>
           (let s = SetContainerStatsTimeout (containerStatsTimeout opts) s in
            case SetupRegistry env s of
              Inl code \<Rightarrow> (Exited code, s)
            | Inr s \<Rightarrow>
                (case setup_pdcs env opts s of
                   Panic p \<Rightarrow> (Panicked p, s)
                 | Err e \<Rightarrow> (Returned (Some e), s)
                 | Ok s \<Rightarrow> (Returned (env_serve env), s\<lparr>ex_listening := True\<rparr>))))"
  unfolding Start_def assms collectors_set_def by (simp add: Level_Set_options Let_def cong: outcome.case_cong)

lemma Start_outcome:
  assumes "parseOptions fs = Inr opts"
  shows "(if pattern_accepted env (webTelemetryPath opts) \<and>
        env_containerEngineErr env = None \<and> env_imageEngineErr env = None \<and> 0 <s cacheDuration opts
    then \<exists>s h. Start env fs initial_state = (Returned (env_serve env), s) \<and> serves opts s \<and>
      ex_handler s = Some h \<and> handler_for opts h
    else \<exists>r s. Start env fs initial_state = (r, s) \<and> \<not> ex_listening s \<and>
      ((\<exists>p. r = Panicked p) \<or> r = Exited 1))"
proof -
  note start = Start_steps [OF assms]
  show ?thesis
  proof (cases "pattern_accepted env (webTelemetryPath opts)")
    case False
    then obtain p where "setup_http env opts (collectors_set opts) = Panic p"
      using setup_http_initial [of env opts] by auto
    then show ?thesis using False start setup_collectors_sel(4) [of opts] by auto
  next
    case True
    then obtain s h where s: "setup_http env opts (collectors_set opts) = Ok s"
      "ex_handler s = Some h" "handler_for opts h" "ex_labels s = label_options opts"
      "ex_logLevel s = level_of opts" "ex_patterns s = [(webTelemetryPath opts, MetricsPage), (''/'', IndexPage)]"
      using setup_http_initial [of env opts] by auto
    have quiet: "\<not> ex_listening s"
      using setup_http_listening [OF s(1)] setup_collectors_sel(4) [of opts] by simp
    let ?s = "SetContainerStatsTimeout (containerStatsTimeout opts) s"
    let ?t = "?s\<lparr>ex_sizeCache := SetupRegistry_cache (ex_sizeCache ?s)\<rparr>"
    have "cache (ex_sizeCache ?t) \<noteq> None" by (simp add: SetupRegistry_cache_def)
    note pdcs = setup_pdcs_total [OF this, of opts env]
    have t: "ex_handler ?t = Some h" "ex_labels ?t = label_options opts" "\<not> ex_listening ?t"
      "\<not> ex_listening ?s" "ex_logLevel ?t = level_of opts" "ex_patterns ?t = ex_patterns s"
      "ex_statsTimeout ?t = containerStatsTimeout opts"
      using s quiet by (simp_all add: SetContainerStatsTimeout_def)
    show ?thesis
      using True s(1,3,6) start pdcs t
      by (cases "env_containerEngineErr env"; cases "env_imageEngineErr env")
         (auto simp: SetupRegistry_def serves_def Let_def split: if_splits)
  qed
qed

lemma started_handler:
  assumes "parseOptions fs = Inr opts" and "ex_listening (snd (Start env fs initial_state))"
    and "ex_handler (snd (Start env fs initial_state)) = Some h"
  shows "serves opts (snd (Start env fs initial_state)) \<and> handler_for opts h"
  using Start_outcome [OF assms(1), of env] assms(2,3) by (auto split: if_splits)

text \<open>
  Requests of a listening exporter: a path the telemetry pattern matches gets the metrics, every
  other path the index page. The link of that page is followed to the metrics only when the
  telemetry pattern matches it.
\<close>

lemma pages_served:
  assumes "mux_documented env" and "pattern_accepted env (webTelemetryPath opts)" and "serves opts s"
  shows "page_of env s path =
    Some (if env_match env (webTelemetryPath opts) path then MetricsPage else IndexPage)"
  using assms by (auto simp: page_of_def mux_documented_def pattern_accepted_def serves_def)

end
