(* ===== verification/Prom_Registry.thy ===== *)
theory Prom_Registry
  imports Prom_Client List_Facts
begin

text \<open>
  The part of the vendored client that turns the metrics received from a collector into metric
  families (\<open>prometheus/registry.go\<close>: \<open>processMetric\<close>, \<open>checkMetricConsistency\<close> and the receive loop
  of \<open>Gather\<close>, without pedantic checks). The metrics are constant counters, gauges or untyped, so
  the suffix check never finds a summary or histogram and is left out. The hash \<open>xxhash\<close> is a
  parameter \<open>h\<close>; two series are told apart when \<open>h\<close> is injective on the keys of one scrape.
  The lemmas speak of what is kept; \<open>NormalizeMetricFamilies\<close>, which orders it, is in
  \<open>Prom_Normalize\<close>.
\<close>

datatype gather_err =
    MetricDescErr metric_err
  | HelpMismatch string
  | TypeMismatch string
  | RepeatedLabel string string
  | BadLabelName string string
  | BadLabelValue string string
  | DuplicateMetric string

record metric_family =
  fam_help :: string
  fam_type :: value_type
  fam_metrics :: "metric list"

record gather_state =
  families :: "string \<rightharpoonup> metric_family"
  metricHashes :: "uint64 set"
  gather_errs :: "gather_err list"

definition gather_init :: gather_state where
  "gather_init = \<lparr>families = (\<lambda>_. None), metricHashes = {}, gather_errs = []\<rparr>"

definition metric_name :: "metric \<Rightarrow> string" where
  "metric_name m = fqName (metric_desc m)"

text \<open>The bytes that are hashed: name, then label names and values, each followed by 0xFF.\<close>

definition separator :: char where
  "separator = CHR 0xFF"

definition series_key :: "string \<Rightarrow> (string \<times> string) list \<Rightarrow> string" where
  "series_key name labels =
     name @ [separator] @ concat (map (\<lambda>(n, v). n @ [separator] @ v @ [separator]) labels)"

fun check_labels :: "string \<Rightarrow> string \<Rightarrow> (string \<times> string) list \<Rightarrow> gather_err option" where
  "check_labels name previous [] = None"
| "check_labels name previous ((l, v) # labels) =
     (if l = previous then Some (RepeatedLabel name l)
      else if \<not> checkLabelName l then Some (BadLabelName name l)
      else if \<not> valid_utf8 v then Some (BadLabelValue name l)
      else check_labels name l labels)"

definition checkMetricConsistency ::
  "(string \<Rightarrow> uint64) \<Rightarrow> string \<Rightarrow> metric_family \<Rightarrow> metric \<Rightarrow> uint64 set \<Rightarrow>
     gather_err option \<times> uint64 set" where
  "checkMetricConsistency h name fam m hashes =
     (if fam_type fam \<noteq> metric_type m then (Some (TypeMismatch name), hashes)
      else case check_labels name [] (metric_labels m) of
        Some e \<Rightarrow> (Some e, hashes)
      | None \<Rightarrow>
          (let hSum = h (series_key name (metric_labels m)) in
           if hSum \<in> hashes then (Some (DuplicateMetric name), hashes)
           else (None, insert hSum hashes)))"

definition processMetric ::
  "(string \<Rightarrow> uint64) \<Rightarrow> metric \<Rightarrow> gather_state \<Rightarrow> gather_err option \<times> gather_state" where
  "processMetric h m g =
     (let d = metric_desc m; name = fqName d in
      case desc_err d of
        Some e \<Rightarrow> (Some (MetricDescErr e), g)
      | None \<Rightarrow>
          (case families g name of
             Some fam \<Rightarrow>
               (if fam_help fam \<noteq> desc_help d then (Some (HelpMismatch name), g)
                else if fam_type fam \<noteq> metric_type m then (Some (TypeMismatch name), g)
                else
                  (let (e, hs) = checkMetricConsistency h name fam m (metricHashes g) in
                   case e of
                     Some e \<Rightarrow> (Some e, g\<lparr>metricHashes := hs\<rparr>)
                   | None \<Rightarrow>
                       (None, g\<lparr>metricHashes := hs,
                                families := (families g)
                                  (name \<mapsto> fam\<lparr>fam_metrics := fam_metrics fam @ [m]\<rparr>)\<rparr>)))
           | None \<Rightarrow>
               (let fam = \<lparr>fam_help = desc_help d, fam_type = metric_type m, fam_metrics = []\<rparr>;
                    g = g\<lparr>families := (families g)(name \<mapsto> fam)\<rparr>;
                    (e, hs) = checkMetricConsistency h name fam m (metricHashes g)
                in case e of
                     Some e \<Rightarrow> (Some e, g\<lparr>metricHashes := hs\<rparr>)
                   | None \<Rightarrow>
                       (None, g\<lparr>metricHashes := hs,
                                families := (families g)
                                  (name \<mapsto> fam\<lparr>fam_metrics := fam_metrics fam @ [m]\<rparr>)\<rparr>))))"

text \<open>The receive loop: errors are appended, the others are gathered.\<close>

definition receive :: "(string \<Rightarrow> uint64) \<Rightarrow> metric \<Rightarrow> gather_state \<Rightarrow> gather_state" where
  "receive h m g =
     (let (e, g') = processMetric h m g in
      case e of None \<Rightarrow> g' | Some e \<Rightarrow> g'\<lparr>gather_errs := gather_errs g' @ [e]\<rparr>)"

definition Gather :: "(string \<Rightarrow> uint64) \<Rightarrow> metric list \<Rightarrow> gather_state" where
  "Gather h ms = fold (receive h) ms gather_init"

section \<open>Keys of series\<close>

definition series :: "metric \<Rightarrow> string \<times> (string \<times> string) list" where
  "series m = (metric_name m, metric_labels m)"

lemma rune_width3_bytes:
  "rune_width3 b cs = 1 \<or>
   rune_width3 b cs = 3 \<and> (\<exists>c1 c2 rest. cs = c1 # c2 # rest \<and> byte c1 \<le> 191 \<and> byte c2 \<le> 191)"
  by (auto simp: rune_width3_def cont_byte_def split: list.splits if_splits)

lemma rune_width4_bytes:
  "rune_width4 b cs = 1 \<or>
   rune_width4 b cs = 4 \<and>
     (\<exists>c1 c2 c3 rest. cs = c1 # c2 # c3 # rest \<and> byte c1 \<le> 191 \<and> byte c2 \<le> 191 \<and> byte c3 \<le> 191)"
  by (auto simp: rune_width4_def cont_byte_def split: list.splits if_splits)

lemma rune_bytes:
  assumes "1 < rune_width (c # cs)" and "x \<in> set (take (rune_width (c # cs)) (c # cs))"
  shows "byte x \<le> 244"
proof -
  consider "194 \<le> byte c" "byte c \<le> 223" "\<exists>c1 rest. cs = c1 # rest \<and> cont_byte c1"
      "rune_width (c # cs) = 2"
    | "224 \<le> byte c" "byte c \<le> 239" "rune_width (c # cs) = rune_width3 (byte c) cs"
    | "240 \<le> byte c" "byte c \<le> 244" "rune_width (c # cs) = rune_width4 (byte c) cs"
    using assms(1) by (simp add: Let_def split: if_splits list.splits)
  then show ?thesis
  proof cases
    case 1
    with assms(2) show ?thesis by (auto simp: numeral_2_eq_2 cont_byte_def simp del: rune_width.simps)
  next
    case 2
    with assms rune_width3_bytes [of "byte c" cs] show ?thesis
      by (auto simp: numeral_3_eq_3 simp del: rune_width.simps)
  next
    case 3
    with assms rune_width4_bytes [of "byte c" cs] show ?thesis
      by (auto simp: eval_nat_numeral simp del: rune_width.simps)
  qed
qed

lemma go_runes_bytes:
  "r \<in> set (go_runes s) \<Longrightarrow> valid_rune r \<Longrightarrow> x \<in> set r \<Longrightarrow> byte x \<le> 244"
proof (induction s rule: go_runes.induct)
  case (2 c cs)
  show ?case
  proof (cases "r = take (rune_width (c # cs)) (c # cs)")
    case True
    show ?thesis
    proof (cases "1 < rune_width (c # cs)")
      case True
      then show ?thesis using rune_bytes "2.prems" \<open>r = _\<close> by blast
    next
      case False
      then have "r = [c]" using \<open>r = _\<close> rune_width_pos [of c cs] by (simp add: take_Cons')
      then show ?thesis using "2.prems" by (simp add: valid_rune_def ascii_def)
    qed
  next
    case False
    then show ?thesis using 2 by (simp add: go_runes.simps(2) del: rune_width.simps)
  qed
qed simp

lemma valid_utf8_no_separator: "valid_utf8 s \<Longrightarrow> separator \<notin> set s"
proof
  assume s: "valid_utf8 s" "separator \<in> set s"
  then obtain r where "r \<in> set (go_runes s)" "separator \<in> set r"
    by (metis concat_go_runes in_set_conv_decomp_first set_concat UN_iff)
  then have "byte separator \<le> 244"
    using s(1) go_runes_bytes [of r s separator] by (auto simp: valid_utf8_def list_all_iff)
  then show False by (simp add: separator_def byte_def)
qed

text \<open>A series whose texts are UTF-8: the bytes hashed determine it, since 0xFF is never one of them.\<close>

definition series_valid :: "string \<times> (string \<times> string) list \<Rightarrow> bool" where
  "series_valid s \<longleftrightarrow>
     valid_utf8 (fst s) \<and> list_all (\<lambda>(n, v). valid_utf8 n \<and> valid_utf8 v) (snd s)"

definition series_parts :: "string \<times> (string \<times> string) list \<Rightarrow> string list" where
  "series_parts s = fst s # concat (map (\<lambda>(n, v). [n, v]) (snd s))"

lemma series_parts_inject: "series_parts s = series_parts t \<longleftrightarrow> s = t"
proof -
  have "concat (map (\<lambda>(n, v). [n, v]) xs) = concat (map (\<lambda>(n, v). [n, v]) ys) \<longleftrightarrow> xs = ys"
    for xs ys :: "(string \<times> string) list"
    by (induction xs ys rule: list_induct2') auto
  then show ?thesis by (cases s; cases t) (simp add: series_parts_def)
qed

lemma go_join_step: "xs \<noteq> [] \<Longrightarrow> go_join sep (x # xs) = x @ sep @ go_join sep xs"
  by (cases xs) simp_all

lemma series_key_join: "series_key (fst s) (snd s) = go_join [separator] (series_parts s @ [[]])"
proof -
  have "n @ [separator] @ concat (map (\<lambda>(n, v). n @ [separator] @ v @ [separator]) ls) =
      go_join [separator] (n # concat (map (\<lambda>(n, v). [n, v]) ls) @ [[]])" for n ls
    by (induction ls arbitrary: n) (auto simp: go_join_step)
  then show ?thesis by (simp add: series_key_def series_parts_def)
qed

lemma series_key_inject:
  assumes "series_valid s" and "series_valid t"
  shows "series_key (fst s) (snd s) = series_key (fst t) (snd t) \<longleftrightarrow> s = t"
proof
  have split: "go_split separator (series_key (fst u) (snd u)) = series_parts u @ [[]]"
    if "series_valid u" for u
    unfolding series_key_join
    using that by (intro go_split_join)
      (auto simp: series_parts_def series_valid_def list_all_iff dest!: valid_utf8_no_separator)
  assume "series_key (fst s) (snd s) = series_key (fst t) (snd t)"
  then have "series_parts s @ [[]] = series_parts t @ [[]]"
    using split [OF assms(1)] split [OF assms(2)] by simp
  then show "s = t" by (simp add: series_parts_inject)
qed simp

section \<open>What Gather keeps\<close>

lemma check_labels_None:
  "\<lbrakk>distinct (previous # map fst ls); list_all (\<lambda>(l, v). checkLabelName l \<and> valid_utf8 v) ls\<rbrakk> \<Longrightarrow>
     check_labels name previous ls = None"
  by (induction name previous ls rule: check_labels.induct) auto

text \<open>A metric that \<open>NewConstMetric\<close> built passes every check but the one for duplicates.\<close>

definition metric_sound :: "metric \<Rightarrow> bool" where
  "metric_sound m \<longleftrightarrow>
     desc_err (metric_desc m) = None \<and> check_labels (metric_name m) [] (metric_labels m) = None \<and>
     series_valid (series m)"

lemma const_metric_sound:
  assumes "send_ok (NewDesc n h ls) vs"
  shows "metric_sound (const_metric (NewDesc n h ls) t x vs)"
proof -
  let ?zs = "sort_key fst (zip ls vs)"
  have ok: "IsValidMetricName n" "label_names_ok ls" "length vs = length ls" "values_ok vs"
    using assms by (simp_all add: send_ok_NewDesc)
  have "mset (map fst ?zs) = image_mset fst (mset (zip ls vs))"
    by (simp add: mset_map)
  also have "\<dots> = mset ls"
    using ok(3) by (metis map_fst_zip mset_map)
  finally have "mset (map fst ?zs) = mset ls" .
  then have "distinct (map fst ?zs)"
    using ok(2) by (metis label_names_ok_def mset_eq_imp_distinct_iff)
  moreover have labels: "checkLabelName l \<and> valid_utf8 v" if "(l, v) \<in> set (zip ls vs)" for l v
    using that ok(2,4) set_zip_leftD [OF that] set_zip_rightD [OF that]
    by (auto simp: label_names_ok_def values_ok_def list_all_iff)
  moreover have "[] \<notin> fst ` set (zip ls vs)"
    using labels by (fastforce simp: checkLabelName_def IsValidLabelName_def)
  ultimately have "check_labels n [] ?zs = None"
    by (intro check_labels_None) (auto simp: list_all_iff)
  moreover have "series_valid (n, ?zs)"
    using ok(1) labels
    by (auto simp: series_valid_def IsValidMetricName_def list_all_iff checkLabelName_def
        IsValidLabelName_def)
  ultimately show ?thesis
    using ok by (simp add: metric_sound_def const_metric_def metric_name_def series_def
        MakeLabelPairs_def NewDesc_err_None_iff)
qed

text \<open>Metrics of one name agree on help and type.\<close>

definition consistent :: "metric list \<Rightarrow> bool" where
  "consistent ms \<longleftrightarrow>
     (\<forall>m \<in> set ms. \<forall>m' \<in> set ms. metric_name m = metric_name m' \<longrightarrow>
        desc_help (metric_desc m) = desc_help (metric_desc m') \<and> metric_type m = metric_type m')"

lemma consistentD:
  "\<lbrakk>consistent ms; m \<in> set ms; m' \<in> set ms; metric_name m = metric_name m'\<rbrakk> \<Longrightarrow>
     desc_help (metric_desc m) = desc_help (metric_desc m') \<and> metric_type m = metric_type m'"
  unfolding consistent_def by blast

definition metric_key :: "metric \<Rightarrow> string" where
  "metric_key m = series_key (metric_name m) (metric_labels m)"

definition family_of :: "metric list \<Rightarrow> string \<Rightarrow> metric_family option" where
  "family_of ms n =
     (case filter (\<lambda>m. metric_name m = n) ms of
        [] \<Rightarrow> None
      | m0 # _ \<Rightarrow>
          Some \<lparr>fam_help = desc_help (metric_desc m0), fam_type = metric_type m0,
                fam_metrics = filter (\<lambda>m. metric_name m = n) (first_by series ms)\<rparr>)"

lemma metric_key_inject:
  "\<lbrakk>metric_sound m; metric_sound m'\<rbrakk> \<Longrightarrow> metric_key m = metric_key m' \<longleftrightarrow> series m = series m'"
  using series_key_inject [of "series m" "series m'"]
  by (simp add: metric_sound_def metric_key_def series_def)

lemma Gather_snoc: "Gather h (ms @ [m]) = receive h m (Gather h ms)"
  by (simp add: Gather_def)

text \<open>The three things that happen to a sound metric that agrees with its family.\<close>

lemma consistency_sound:
  "\<lbrakk>metric_sound m; fam_type fam = metric_type m\<rbrakk> \<Longrightarrow>
     checkMetricConsistency h (metric_name m) fam m hs =
       (if h (metric_key m) \<in> hs then (Some (DuplicateMetric (metric_name m)), hs)
        else (None, insert (h (metric_key m)) hs))"
  by (simp add: checkMetricConsistency_def metric_sound_def metric_key_def Let_def)

lemma receive_first:
  assumes "metric_sound m" and "families g (metric_name m) = None" and "h (metric_key m) \<notin> metricHashes g"
  shows "receive h m g =
    g\<lparr>families := (families g)(metric_name m \<mapsto>
        \<lparr>fam_help = desc_help (metric_desc m), fam_type = metric_type m, fam_metrics = [m]\<rparr>),
      metricHashes := insert (h (metric_key m)) (metricHashes g)\<rparr>"
proof -
  have "desc_err (metric_desc m) = None" using assms(1) by (simp add: metric_sound_def)
  with assms show ?thesis
    by (simp add: receive_def processMetric_def metric_name_def [symmetric] consistency_sound Let_def)
qed

lemma receive_further:
  assumes "metric_sound m" and "families g (metric_name m) = Some fam"
    and "fam_help fam = desc_help (metric_desc m)" and "fam_type fam = metric_type m"
  shows "receive h m g =
    (if h (metric_key m) \<in> metricHashes g
     then g\<lparr>gather_errs := gather_errs g @ [DuplicateMetric (metric_name m)]\<rparr>
     else g\<lparr>families := (families g)(metric_name m \<mapsto> fam\<lparr>fam_metrics := fam_metrics fam @ [m]\<rparr>),
            metricHashes := insert (h (metric_key m)) (metricHashes g)\<rparr>)"
proof -
  have "desc_err (metric_desc m) = None" using assms(1) by (simp add: metric_sound_def)
  with assms show ?thesis
    by (simp add: receive_def processMetric_def metric_name_def [symmetric] consistency_sound Let_def)
qed

lemma first_by_snoc:
  "first_by f (xs @ [x]) = first_by f xs @ (if f x \<in> f ` set xs then [] else [x])"
  by (simp add: first_by_append)

lemma family_of_first:
  assumes "filter (\<lambda>x. metric_name x = metric_name m) ms = []"
  shows "family_of (ms @ [m]) = (family_of ms)(metric_name m \<mapsto>
    \<lparr>fam_help = desc_help (metric_desc m), fam_type = metric_type m, fam_metrics = [m]\<rparr>)"
proof
  fix n
  have "series m \<notin> series ` set ms" using assms by (auto simp: filter_empty_conv series_def)
  moreover have "filter (\<lambda>x. metric_name x = metric_name m) (first_by series ms) = []"
    using assms first_by_subset [of series ms] by (auto simp: filter_empty_conv)
  ultimately show "family_of (ms @ [m]) n = ((family_of ms)(metric_name m \<mapsto>
    \<lparr>fam_help = desc_help (metric_desc m), fam_type = metric_type m, fam_metrics = [m]\<rparr>)) n"
    using assms by (cases "n = metric_name m") (simp_all add: family_of_def first_by_snoc split: list.split)
qed

lemma family_of_further:
  assumes "family_of ms (metric_name m) = Some fam"
  shows "family_of (ms @ [m]) =
    (if series m \<in> series ` set ms then family_of ms
     else (family_of ms)(metric_name m \<mapsto> fam\<lparr>fam_metrics := fam_metrics fam @ [m]\<rparr>))"
proof
  fix n
  obtain m0 rest where c: "filter (\<lambda>x. metric_name x = metric_name m) ms = m0 # rest"
    using assms by (auto simp: family_of_def split: list.splits)
  show "family_of (ms @ [m]) n =
    (if series m \<in> series ` set ms then family_of ms
     else (family_of ms)(metric_name m \<mapsto> fam\<lparr>fam_metrics := fam_metrics fam @ [m]\<rparr>)) n"
  proof (cases "n = metric_name m")
    case True
    then show ?thesis using assms c by (auto simp: family_of_def first_by_snoc)
  next
    case False
    then show ?thesis by (simp add: family_of_def first_by_snoc split: list.split)
  qed
qed

lemma Gather_correct:
  assumes "list_all metric_sound ms" and "consistent ms" and "inj_on h (metric_key ` set ms)"
  shows "families (Gather h ms) = family_of ms"
    and "metricHashes (Gather h ms) = h ` metric_key ` set ms"
    and "length (gather_errs (Gather h ms)) + length (first_by series ms) = length ms"
proof -
  have "families (Gather h ms) = family_of ms \<and>
    metricHashes (Gather h ms) = h ` metric_key ` set ms \<and>
    length (gather_errs (Gather h ms)) + length (first_by series ms) = length ms"
    using assms
  proof (induction ms rule: rev_induct)
    case Nil
    then show ?case by (simp add: Gather_def gather_init_def family_of_def fun_eq_iff)
  next
    case (snoc m ms)
    let ?g = "Gather h ms"
    have sound: "list_all metric_sound ms" "metric_sound m" using snoc.prems by auto
    have "consistent ms" using snoc.prems(2) unfolding consistent_def set_append by blast
    moreover have "inj_on h (metric_key ` set ms)"
      using snoc.prems(3) by (rule inj_on_subset) auto
    ultimately have IH: "families ?g = family_of ms" "metricHashes ?g = h ` metric_key ` set ms"
      "length (gather_errs ?g) + length (first_by series ms) = length ms"
      using snoc.IH [OF sound(1)] by blast+
    have seen: "h (metric_key m) \<in> metricHashes ?g \<longleftrightarrow> series m \<in> series ` set ms"
    proof -
      have "h (metric_key m) \<in> h ` metric_key ` set ms \<longleftrightarrow> metric_key m \<in> metric_key ` set ms"
        using snoc.prems(3) by (auto simp: inj_on_def)
      also have "\<dots> \<longleftrightarrow> series m \<in> series ` set ms"
        using metric_key_inject [OF sound(2)] sound(1) by (auto simp: list_all_iff image_iff)
      finally show ?thesis by (simp add: IH(2))
    qed
    show ?case
    proof (cases "filter (\<lambda>x. metric_name x = metric_name m) ms")
      case Nil
      then have "series m \<notin> series ` set ms" by (auto simp: filter_empty_conv series_def)
      moreover have "families ?g (metric_name m) = None" using Nil by (simp add: IH(1) family_of_def)
      ultimately show ?thesis
        unfolding Gather_snoc first_by_snoc family_of_first [OF Nil]
        using IH seen receive_first [OF sound(2), of ?g h] by simp
    next
      case (Cons m0 rest)
      then have "m0 \<in> set ms" "metric_name m0 = metric_name m" by (blast dest: filter_eq_Cons_in)+
      then have same: "desc_help (metric_desc m0) = desc_help (metric_desc m)"
        "metric_type m0 = metric_type m"
        using snoc.prems(2) consistentD [of "ms @ [m]" m0 m] by simp_all
      let ?fam = "\<lparr>fam_help = desc_help (metric_desc m0), fam_type = metric_type m0,
        fam_metrics = filter (\<lambda>x. metric_name x = metric_name m) (first_by series ms)\<rparr>"
      have fam: "family_of ms (metric_name m) = Some ?fam" using Cons by (simp add: family_of_def)
      have "families ?g (metric_name m) = Some ?fam" using fam by (simp add: IH(1))
      then show ?thesis
        unfolding Gather_snoc first_by_snoc family_of_further [OF fam]
        using IH seen receive_further [OF sound(2), of ?g ?fam h] same
        by (cases "series m \<in> series ` set ms") (simp_all add: insert_absorb fun_upd_def)
    qed
  qed
  then show "families (Gather h ms) = family_of ms"
    "metricHashes (Gather h ms) = h ` metric_key ` set ms"
    "length (gather_errs (Gather h ms)) + length (first_by series ms) = length ms"
    by blast+
qed

text \<open>When no series occurs twice, nothing is dropped.\<close>

lemma Gather_all:
  assumes "list_all metric_sound ms" and "consistent ms" and "inj_on h (metric_key ` set ms)"
    and "distinct (map series ms)"
  shows "gather_errs (Gather h ms) = []"
    and "families (Gather h ms) n =
      (case filter (\<lambda>m. metric_name m = n) ms of
         [] \<Rightarrow> None
       | m0 # _ \<Rightarrow> Some \<lparr>fam_help = desc_help (metric_desc m0), fam_type = metric_type m0,
                          fam_metrics = filter (\<lambda>m. metric_name m = n) ms\<rparr>)"
  using Gather_correct [OF assms(1-3)]
  by (simp_all add: family_of_def first_by_id [OF assms(4)] split: list.split)

text \<open>A scrape without errors had no two equal hashes, so no series twice.\<close>

lemma checkMetricConsistency_None:
  "checkMetricConsistency h n fam m hs = (None, hs') \<Longrightarrow>
     h (series_key n (metric_labels m)) \<notin> hs \<and> hs' = insert (h (series_key n (metric_labels m))) hs"
  by (auto simp: checkMetricConsistency_def Let_def split: if_splits option.splits)

lemma processMetric_None:
  assumes "processMetric h m g = (None, g')"
  shows "gather_errs g' = gather_errs g \<and> h (metric_key m) \<notin> metricHashes g \<and>
    metricHashes g' = insert (h (metric_key m)) (metricHashes g)"
proof -
  have d: "desc_err (metric_desc m) = None"
    using assms by (auto simp: processMetric_def Let_def split: option.splits)
  show ?thesis
  proof (cases "families g (fqName (metric_desc m))")
    case None
    with d assms show ?thesis
      by (auto simp: processMetric_def Let_def metric_key_def metric_name_def
          split: option.splits prod.splits dest!: checkMetricConsistency_None)
  next
    case (Some fam)
    with d assms show ?thesis
      by (auto simp: processMetric_def Let_def metric_key_def metric_name_def
          split: option.splits prod.splits if_splits dest!: checkMetricConsistency_None)
  qed
qed

lemma receive_no_err:
  assumes "gather_errs (receive h m g) = []"
  shows "gather_errs g = [] \<and> h (metric_key m) \<notin> metricHashes g \<and>
    metricHashes (receive h m g) = insert (h (metric_key m)) (metricHashes g)"
proof -
  obtain e g' where p: "processMetric h m g = (e, g')" by fastforce
  with assms have "e = None" by (cases e) (simp_all add: receive_def)
  with assms p processMetric_None [of h m g g'] show ?thesis by (simp add: receive_def)
qed

lemma Gather_no_errs:
  "gather_errs (Gather h ms) = [] \<Longrightarrow>
     distinct (map (\<lambda>m. h (metric_key m)) ms) \<and> metricHashes (Gather h ms) = (\<lambda>m. h (metric_key m)) ` set ms"
proof (induction ms rule: rev_induct)
  case Nil
  then show ?case by (simp add: Gather_def gather_init_def)
next
  case (snoc m ms)
  then show ?case using receive_no_err [of h m "Gather h ms"] by (auto simp: Gather_snoc)
qed

lemma Gather_no_errs_distinct: "gather_errs (Gather h ms) = [] \<Longrightarrow> distinct (map metric_key ms)"
  using Gather_no_errs [of h ms] by (auto simp: distinct_map inj_on_def)

lemma distinct_map_key_series: "distinct (map metric_key ms) \<Longrightarrow> distinct (map series ms)"
  by (auto simp: distinct_map inj_on_def metric_key_def series_def)

end
