(* ===== verification/Metric_Table.thy ===== *)
theory Metric_Table
  imports Coll_Registry Prom_Registry
begin

text \<open>
  The table of all metrics: their names, types and help texts, read off the descriptors of the
  collectors. Whatever is reported, and whether an update ends well or panics, a collector sends
  only metrics of the table, and each is one the registry accepts; so metrics of one name always
  agree in type and help.
\<close>

section \<open>The table\<close>

definition entries ::
  "string \<Rightarrow> ('f \<Rightarrow> value_type) \<Rightarrow> ('f \<times> string \<times> string) list \<Rightarrow> (string \<times> value_type \<times> string) list" where
  "entries sub types table = map (\<lambda>(f, n, h). (BuildFQName namespace sub n, types f, h)) table"

lemma entries_append: "entries sub ty (xs @ ys) = entries sub ty xs @ entries sub ty ys"
  by (simp add: entries_def)

definition metric_table :: "(string \<times> value_type \<times> string) list" where
  "metric_table =
     entries ''container'' container_value_type (info_table @ updateInfo_table @ updateStats_table)
     @ entries ''image'' image_value_type (image_info_table @ image_metric_table)
     @ entries ''pod'' pod_value_type (pod_info_table @ pod_metric_table)
     @ entries ''network'' (\<lambda>_. GaugeValue) [(NInfo, ''info'', ''Network information.'')]
     @ entries ''volume'' (\<lambda>_. GaugeValue)
         [(VInfo, ''info'', ''Volume information.''),
          (VCreated, ''created_seconds'', ''Volume creation time in unixtime.'')]
     @ entries ''system'' (\<lambda>_. GaugeValue)
         (map (\<lambda>f. (f, system_desc f)) [SPodmanVer, SRuntimeVer, SConmonVer, SBuildahVer])
     @ entries ''disk_usage'' (\<lambda>_. GaugeValue)
         (map (\<lambda>f. (f, disk_usage_desc f))
           [DImagesSize, DImagesReclaimable, DContainersSize, DContainersReclaimable, DVolumesSize,
            DVolumesReclaimable])
     @ entries ''scrape'' (\<lambda>_. GaugeValue)
         [((), ''collector_duration_seconds'', ''podman_prometheus_exporter: Duration of a collector scrape.''),
          ((), ''collector_success'', ''podman_prometheus_exporter: Whether a collector succeeded.'')]"

lemma metric_table_distinct: "distinct (map fst metric_table)"
  by code_simp

definition listed_desc :: "desc \<Rightarrow> value_type \<Rightarrow> bool" where
  "listed_desc d ty \<longleftrightarrow> (\<exists>n h ls. d = NewDesc n h ls \<and> (n, ty, h) \<in> set metric_table)"

definition metric_listed :: "metric \<Rightarrow> bool" where
  "metric_listed m \<longleftrightarrow>
     metric_sound m \<and>
     (metric_name m, metric_type m, desc_help (metric_desc m)) \<in> set metric_table"

lemma metrics_listed_consistent: "list_all metric_listed ms \<Longrightarrow> consistent ms"
  using metric_table_distinct
  by (force simp: consistent_def metric_listed_def list_all_iff dest: eq_key_imp_eq_value)

lemma const_metric_listed:
  assumes "listed_desc d ty" and "MustNewConstMetric (Some d) ty x vs = Ok m"
  shows "metric_listed m"
proof -
  obtain n h ls where d: "d = NewDesc n h ls" "(n, ty, h) \<in> set metric_table"
    using assms(1) by (auto simp: listed_desc_def)
  have ok: "send_ok d vs" using MustNewConstMetric_panics [of d vs ty x] assms(2) by fastforce
  then have "m = const_metric d ty x vs" using MustNewConstMetric_ok [OF ok, of ty x] assms(2) by simp
  then show ?thesis
    using d ok const_metric_sound [of n h ls vs ty x]
    by (simp add: metric_listed_def metric_name_def const_metric_def)
qed

section \<open>Running instructions\<close>

text \<open>A struct whose descriptors, as far as they are set, are listed with the types of their fields.\<close>

definition struct_listed :: "('f \<Rightarrow> value_type) \<Rightarrow> 'f collector \<Rightarrow> bool" where
  "struct_listed types c \<longleftrightarrow>
     (\<forall>f. td_type (c f) = types f \<and> (\<forall>d. td_desc (c f) = Some d \<longrightarrow> listed_desc d (types f)))"

fun instr_listed :: "('f \<Rightarrow> value_type) \<Rightarrow> 'f instr \<Rightarrow> bool" where
  "instr_listed types (SetDesc f d) \<longleftrightarrow> listed_desc d (types f)"
| "instr_listed types (Send f v ls) \<longleftrightarrow> True"

lemma exec_instr_listed:
  assumes "struct_listed types c" and "instr_listed types i" and "exec_instr c i = Ok (c', ms)"
  shows "struct_listed types c' \<and> list_all metric_listed ms"
proof (cases i)
  case (SetDesc f d)
  then show ?thesis using assms by (auto simp: struct_listed_def split: if_splits)
next
  case (Send f v ls)
  then obtain m where m: "MustNewConstMetric (td_desc (c f)) (types f) v ls = Ok m" "ms = [m]" "c' = c"
    using assms(1,3) by (auto simp: outcome typedDesc_mustNewConstMetric_def struct_listed_def)
  then obtain d where "td_desc (c f) = Some d" by (cases "td_desc (c f)") (auto simp: MustNewConstMetric_def)
  then show ?thesis
    using assms(1) m const_metric_listed [of d "types f" v ls m] by (simp add: struct_listed_def)
qed

lemma run_instrs_listed:
  "\<lbrakk>struct_listed types c; list_all (instr_listed types) is; run_instrs c is = (c', ms, p)\<rbrakk> \<Longrightarrow>
     struct_listed types c' \<and> list_all metric_listed ms"
proof (induction c "is" arbitrary: c' ms p rule: run_instrs.induct)
  case (2 c i "is")
  show ?case
  proof (cases "exec_instr c i")
    case (Ok r)
    obtain c1 ms1 where r: "r = (c1, ms1)" by (cases r)
    obtain c2 ms2 q where run: "run_instrs c1 is = (c2, ms2, q)" by (metis prod_cases3)
    have first: "struct_listed types c1 \<and> list_all metric_listed ms1"
      using exec_instr_listed [of types c i c1 ms1] "2.prems" Ok r by simp
    moreover have "struct_listed types c2 \<and> list_all metric_listed ms2"
      using "2.IH" [OF Ok r [symmetric] _ _ run] first "2.prems"(2) by simp
    ultimately show ?thesis using "2.prems"(3) Ok r run by auto
  qed (use "2.prems" in auto)
qed simp

lemma run_update_listed:
  assumes "struct_listed types c" and "\<And>is. u = Ok is \<Longrightarrow> list_all (instr_listed types) is"
    and "run_update c u = (c', ms, r)"
  shows "struct_listed types c' \<and> list_all metric_listed ms"
proof (cases u)
  case (Ok "is")
  obtain c1 ms1 p where run: "run_instrs c is = (c1, ms1, p)" by (metis prod_cases3)
  then show ?thesis
    using run_instrs_listed [OF assms(1) assms(2) [OF Ok] run] assms(3) Ok
    by (simp add: run_update_def)
qed (use assms in \<open>auto simp: run_update_def\<close>)

section \<open>The updates\<close>

lemma descs_listed:
  assumes "set (entries sub types table) \<subseteq> set metric_table" and "(f, d) \<in> set (descs sub table ls)"
  shows "listed_desc d (types f)"
proof -
  obtain n h where "(f, n, h) \<in> set table" "d = NewDesc (BuildFQName namespace sub n) h ls"
    using assms(2) by (auto simp: descs_def)
  moreover from this have "(BuildFQName namespace sub n, types f, h) \<in> set (entries sub types table)"
    by (force simp: entries_def)
  ultimately show ?thesis using assms(1) by (auto simp: listed_desc_def)
qed

lemma program_listed:
  assumes "\<And>ds ss f d. (ds, ss) \<in> set bs \<Longrightarrow> (f, d) \<in> set ds \<Longrightarrow> listed_desc d (types f)"
  shows "list_all (instr_listed types) (program bs)"
  using assms by (fastforce simp: program_def block_def list_all_iff)

lemma table_entries:
  "set (entries ''container'' container_value_type info_table) \<subseteq> set metric_table"
  "set (entries ''container'' container_value_type updateInfo_table) \<subseteq> set metric_table"
  "set (entries ''container'' container_value_type updateStats_table) \<subseteq> set metric_table"
  "set (entries ''image'' image_value_type image_info_table) \<subseteq> set metric_table"
  "set (entries ''image'' image_value_type image_metric_table) \<subseteq> set metric_table"
  "set (entries ''pod'' pod_value_type pod_info_table) \<subseteq> set metric_table"
  "set (entries ''pod'' pod_value_type pod_metric_table) \<subseteq> set metric_table"
  unfolding metric_table_def entries_append set_append by blast+

lemma static_entries:
  "(BuildFQName namespace ''network'' ''info'', GaugeValue, ''Network information.'') \<in> set metric_table"
  "(BuildFQName namespace ''volume'' ''info'', GaugeValue, ''Volume information.'') \<in> set metric_table"
  "(BuildFQName namespace ''volume'' ''created_seconds'', GaugeValue,
    ''Volume creation time in unixtime.'') \<in> set metric_table"
  "(BuildFQName namespace ''scrape'' ''collector_duration_seconds'', GaugeValue,
    ''podman_prometheus_exporter: Duration of a collector scrape.'') \<in> set metric_table"
  "(BuildFQName namespace ''scrape'' ''collector_success'', GaugeValue,
    ''podman_prometheus_exporter: Whether a collector succeeded.'') \<in> set metric_table"
  by code_simp+

lemma system_entries:
  "(BuildFQName namespace ''system'' (fst (system_desc f)), GaugeValue, snd (system_desc f)) \<in> set metric_table"
  by (induction f; code_simp)

lemma disk_usage_entries:
  "(BuildFQName namespace ''disk_usage'' (fst (disk_usage_desc f)), GaugeValue, snd (disk_usage_desc f))
     \<in> set metric_table"
  by (induction f; code_simp)

lemma container_program_listed:
  "list_all (instr_listed container_value_type)
     (program (concat (map (container_blocks v stats) reps)))"
  by (rule program_listed)
     (auto simp: container_blocks_def updateInfo_def updateStats_def dest: descs_listed [OF table_entries(1)]
       descs_listed [OF table_entries(2)] descs_listed [OF table_entries(3)])

lemma image_program_listed:
  "list_all (instr_listed image_value_type) (program (concat (map (image_blocks v) reps)))"
  by (rule program_listed)
     (auto simp: image_blocks_def two_part_blk_def dest: descs_listed [OF table_entries(4)]
       descs_listed [OF table_entries(5)])

lemma pod_program_listed:
  "list_all (instr_listed pod_value_type) (program (concat (map (pod_blocks v) reps)))"
  by (rule program_listed)
     (auto simp: pod_blocks_def two_part_blk_def dest: descs_listed [OF table_entries(6)]
       descs_listed [OF table_entries(7)])

lemma send_all_listed: "list_all (instr_listed types) (send_all ss)"
  by (auto simp: send_all_def list_all_iff)

lemma listed_NewDesc: "(n, ty, h) \<in> set metric_table \<Longrightarrow> listed_desc (NewDesc n h ls) ty"
  unfolding listed_desc_def by blast

lemma static_structs_listed:
  "struct_listed (\<lambda>_. GaugeValue) NewNetworkStatsCollector"
  "struct_listed (\<lambda>_. GaugeValue) (NewVolumeStatsCollector v)"
  "struct_listed (\<lambda>_. GaugeValue) NewSystemCollector"
  "struct_listed (\<lambda>_. GaugeValue) NewDiskUsageCollector"
proof -
  show "struct_listed (\<lambda>_. GaugeValue) NewNetworkStatsCollector"
    by (simp add: struct_listed_def NewNetworkStatsCollector_def listed_NewDesc static_entries)
  have "listed_desc (the (td_desc (NewVolumeStatsCollector v f))) GaugeValue" for f
    by (cases f) (simp_all add: NewVolume_descs listed_NewDesc static_entries)
  then show "struct_listed (\<lambda>_. GaugeValue) (NewVolumeStatsCollector v)"
    by (metis NewVolume_descs(3) option.sel struct_listed_def)
  show "struct_listed (\<lambda>_. GaugeValue) NewSystemCollector"
    by (simp add: struct_listed_def NewSystem_descs listed_NewDesc system_entries)
  show "struct_listed (\<lambda>_. GaugeValue) NewDiskUsageCollector"
    by (simp add: struct_listed_def NewDiskUsageCollector_def newDiskUsageDesc_def listed_NewDesc
        disk_usage_entries)
qed

section \<open>Collectors and scrapes\<close>

text \<open>A collector as the registry keeps it: built, and its descriptors listed.\<close>

fun descs_set :: "Collector \<Rightarrow> bool" where
  "descs_set (containerCollector c) \<longleftrightarrow> struct_listed container_value_type c"
| "descs_set (imageCollector c) \<longleftrightarrow> struct_listed image_value_type c"
| "descs_set (podCollector c) \<longleftrightarrow> struct_listed pod_value_type c"
| "descs_set (diskUsageCollector c) \<longleftrightarrow> struct_listed (\<lambda>_. GaugeValue) c"
| "descs_set (networkCollector c) \<longleftrightarrow> struct_listed (\<lambda>_. GaugeValue) c"
| "descs_set (systemCollector c) \<longleftrightarrow> struct_listed (\<lambda>_. GaugeValue) c"
| "descs_set (volumeCollector c) \<longleftrightarrow> struct_listed (\<lambda>_. GaugeValue) c"

lemma updates_listed:
  "containerCollector_Update v reps stats = Ok i1 \<Longrightarrow> list_all (instr_listed container_value_type) i1"
  "imageCollector_Update v imgs = Ok i2 \<Longrightarrow> list_all (instr_listed image_value_type) i2"
  "podCollector_Update v pods = Ok i3 \<Longrightarrow> list_all (instr_listed pod_value_type) i3"
  "networkCollector_Update nets = Ok i4 \<Longrightarrow> list_all (instr_listed (\<lambda>_. GaugeValue)) i4"
  "volumeCollector_Update v vols = Ok i5 \<Longrightarrow> list_all (instr_listed (\<lambda>_. GaugeValue)) i5"
  "systemCollector_Update info = Ok i6 \<Longrightarrow> list_all (instr_listed (\<lambda>_. GaugeValue)) i6"
  "diskUsageCollector_Update du = Ok i7 \<Longrightarrow> list_all (instr_listed (\<lambda>_. GaugeValue)) i7"
  by (cases stats)
     (auto simp: outcome containerCollector_Update_def container_loop_eq container_program_listed
      imageCollector_Update_def image_loop_eq image_program_listed
      podCollector_Update_def pod_loop_eq pod_program_listed networkCollector_Update_def
      volumeCollector_Update_def systemCollector_Update_def diskUsageCollector_Update_def
      send_all_listed split: sum.splits simp del: container_loop.simps image_loop.simps pod_loop.simps)

lemma rewrap_update_listed:
  assumes "rewrap k (run_update c u) = (c', ms, r)" and "struct_listed types c"
    and "\<And>is. u = Ok is \<Longrightarrow> list_all (instr_listed types) is"
  shows "\<exists>c1. c' = k c1 \<and> struct_listed types c1 \<and> list_all metric_listed ms"
proof -
  obtain c1 where "run_update c u = (c1, ms, r)" "c' = k c1"
    using assms(1) by (cases "run_update c u") (auto simp: rewrap_def)
  then show ?thesis using run_update_listed [OF assms(2,3)] by blast
qed

lemma Update_listed:
  assumes "Update v a c = (c', ms, r)" and "descs_set c"
  shows "descs_set c' \<and> list_all metric_listed ms"
proof (cases c)
  case (containerCollector c1)
  then show ?thesis using assms rewrap_update_listed [OF _ _ updates_listed(1)] by fastforce
next
  case (imageCollector c1)
  then show ?thesis using assms rewrap_update_listed [OF _ _ updates_listed(2)] by fastforce
next
  case (podCollector c1)
  then show ?thesis using assms rewrap_update_listed [OF _ _ updates_listed(3)] by fastforce
next
  case (networkCollector c1)
  then show ?thesis using assms rewrap_update_listed [OF _ _ updates_listed(4)] by fastforce
next
  case (volumeCollector c1)
  then show ?thesis using assms rewrap_update_listed [OF _ _ updates_listed(5)] by fastforce
next
  case (systemCollector c1)
  then show ?thesis using assms rewrap_update_listed [OF _ _ updates_listed(6)] by fastforce
next
  case (diskUsageCollector c1)
  then show ?thesis using assms rewrap_update_listed [OF _ _ updates_listed(7)] by fastforce
qed

lemma scrape_descs_listed:
  "listed_desc scrapeDurationDesc GaugeValue" "listed_desc scrapeSuccessDesc GaugeValue"
  unfolding scrapeDurationDesc_def scrapeSuccessDesc_def
  by (rule listed_NewDesc [OF static_entries(4)], rule listed_NewDesc [OF static_entries(5)])

lemma execute_listed:
  assumes "execute v a d n c = (c', ms, p)" and "descs_set c"
  shows "descs_set c' \<and> list_all metric_listed ms"
proof -
  obtain c1 ms1 r where u: "Update v a c = (c1, ms1, r)" by (metis prod_cases3)
  have one: "descs_set c1" "list_all metric_listed ms1" using Update_listed [OF u assms(2)] by auto
  show ?thesis
  proof (cases r)
    case (Ok err)
    then show ?thesis
      using assms(1) u one const_metric_listed [OF scrape_descs_listed(1)]
        const_metric_listed [OF scrape_descs_listed(2)]
      by (auto simp: execute_def Let_def split: outcome.splits)
  qed (use assms(1) u one in \<open>auto simp: execute_def\<close>)
qed

lemma executions_listed:
  assumes "list_all (\<lambda>(_, c). descs_set c) cs"
  shows "list_all (\<lambda>r. descs_set (fst r) \<and> list_all metric_listed (fst (snd r))) (executions v a ds cs)"
  using assms
proof (induction cs arbitrary: ds)
  case Nil
  then show ?case by (simp add: executions_def)
next
  case (Cons x cs)
  obtain n c where x: "x = (n, c)" by (cases x)
  show ?case
  proof (cases ds)
    case Nil
    then show ?thesis by (simp add: executions_def)
  next
    case (Cons d ds')
    obtain c' ms p where "execute v a d n c = (c', ms, p)" by (metis prod_cases3)
    then show ?thesis
      using Cons.prems Cons.IH [of ds'] Cons x execute_listed [of v a d n c c' ms p] \<open>ds = d # ds'\<close>
      by simp
  qed
qed

lemma Collect_listed:
  assumes "Collect v a ds cs (Collected cs' ms)" and "list_all (\<lambda>(_, c). descs_set c) cs"
  shows "list_all metric_listed ms \<and> list_all (\<lambda>(_, c). descs_set c) cs'"
  using assms(1)
proof (cases rule: Collect.cases)
  case all_done
  note listed = executions_listed [OF assms(2), of v a ds]
  have "set ms = set (concat (map (\<lambda>r. fst (snd r)) (executions v a ds cs)))"
    by (rule mset_eq_setD) (rule merges_mset [OF all_done(4)])
  then have "list_all metric_listed ms" using listed by (simp add: list_all_iff)
  moreover have "descs_set c" if "(n, c) \<in> set cs'" for n c
    using listed set_zip_rightD [OF that [unfolded all_done(1)]] by (auto simp: list_all_iff)
  then have "list_all (\<lambda>(_, c). descs_set c) cs'" by (auto simp: list_all_iff)
  ultimately show ?thesis by simp
qed

end
