(* ===== verification/Scrape_Gather.thy ===== *)
theory Scrape_Gather
  imports Coll_Image Prom_Registry
begin

text \<open>
  The metrics of the image collector meet the registry: when the entries of the image report are
  told apart by their labels, the registry keeps every metric of a scrape.
\<close>

section \<open>Labels determine the values of the default labels\<close>

lemma set_label_pairs: "set (label_pairs ls vs) = set (zip ls vs)"
  by (simp add: label_pairs_def)

lemma label_pairs_prefix:
  assumes "distinct (d @ eb)" and "length va = length d" "length vb = length d"
    and "length wb = length eb"
    and "label_pairs (d @ ea) (va @ wa) = label_pairs (d @ eb) (vb @ wb)"
  shows "va = vb"
proof (rule nth_equalityI)
  show "length va = length vb" using assms by simp
  fix i
  assume i: "i < length va"
  have "(d ! i, va ! i) \<in> set (zip d va)"
    using i assms(2) by (auto simp: set_zip)
  then have "(d ! i, va ! i) \<in> set (zip (d @ eb) (vb @ wb))"
    using assms(2,5) by (metis UnI1 set_append set_label_pairs zip_append)
  then obtain j where j: "j < length (d @ eb)" "(d @ eb) ! j = d ! i" "(vb @ wb) ! j = va ! i"
    by (auto simp: set_zip)
  then have "j = i"
    using assms(1,2) i by (metis add_strict_increasing2 le0 length_append nth_append
        nth_eq_iff_index_eq trans_less_add1)
  then show "va ! i = vb ! i" using j(3) i assms(2,3) by (simp add: nth_append)
qed

definition sample_series :: "sample \<Rightarrow> string \<times> (string \<times> string) list" where
  "sample_series s = (fst s, fst (snd (snd s)))"

lemma series_sample: "series m = sample_series (sample m)"
  by (simp add: series_def sample_series_def sample_def metric_name_def)

lemma image_info_labels_inject:
  assumes "image_ok v b"
    and "label_pairs (fst (getImageDescLabels v a)) (snd (getImageDescLabels v a)) =
         label_pairs (fst (getImageDescLabels v b)) (snd (getImageDescLabels v b))"
  shows "image_label_values a = image_label_values b"
proof -
  let ?x = "\<lambda>r. getExtraLabelsAndValues v imageDescDefaultLabels (img_Labels r)"
  have "distinct (imageDescDefaultLabels @ fst (?x b))"
    using assms(1) image_info_ok [of v b]
    by (simp add: getImageDescLabels_eq full_labels_def label_names_ok_def)
  moreover have "length (snd (?x b)) = length (fst (?x b))"
    by (simp add: getExtraLabelsAndValues_eq)
  moreover have "length (image_label_values r) = length imageDescDefaultLabels" for r
    by (simp add: image_label_values_def imageDescDefaultLabels_def)
  ultimately show ?thesis
    using assms(2) unfolding getImageDescLabels_eq full_labels_def full_values_def fst_conv snd_conv
    by (intro label_pairs_prefix [where ea = "fst (?x a)" and wa = "snd (?x a)"])
qed

lemma image_short_labels_inject:
  assumes "label_pairs imageDefaultLabels [i, r, t] = label_pairs imageDefaultLabels [i', r', t']"
  shows "[i, r, t] = [i', r', t']"
proof -
  have "distinct imageDefaultLabels" using imageDefaultLabels_ok by (simp add: label_names_ok_def)
  then show ?thesis
    using label_pairs_prefix [of imageDefaultLabels "[]" "[i, r, t]" "[i', r', t']" "[]" "[]" "[]"] assms
    by (simp add: imageDefaultLabels_def)
qed

section \<open>The series of the images\<close>

definition image_name_triple :: "Image \<Rightarrow> string list" where
  "image_name_triple img = [img_ID img, img_Repository img, img_Tag img]"

text \<open>
  The entries are told apart: by the labels of the info metric, and, when the other metrics carry
  the short labels, by these.
\<close>

definition images_distinct :: "label_vars \<Rightarrow> Image list \<Rightarrow> bool" where
  "images_distinct v imgs \<longleftrightarrow>
     distinct (map image_label_values imgs) \<and>
     (enhanceAllMetrics v \<or> distinct (map image_name_triple imgs))"

lemma image_samples_disjoint:
  assumes "image_ok v a" and "image_ok v b" and "image_label_values a \<noteq> image_label_values b"
    and "enhanceAllMetrics v \<or> image_name_triple a \<noteq> image_name_triple b"
  shows "sample_series ` set (image_samples v a) \<inter> sample_series ` set (image_samples v b) = {}"
proof -
  have "label_pairs (fst (getImageDescLabels v a)) (snd (getImageDescLabels v a)) \<noteq>
      label_pairs (fst (getImageDescLabels v b)) (snd (getImageDescLabels v b))"
    using image_info_labels_inject [OF assms(2)] assms(3) by blast
  moreover have "enhanceAllMetrics v \<or>
      label_pairs imageDefaultLabels (image_name_triple a) \<noteq>
      label_pairs imageDefaultLabels (image_name_triple b)"
    using image_short_labels_inject assms(4) unfolding image_name_triple_def by blast
  ultimately show ?thesis
    by (auto simp: image_samples_def Let_def sample_series_def getImageDescLabels_eq image_name_triple_def)
qed

lemma image_samples_series_distinct: "distinct (map sample_series (image_samples v a))"
  by (simp add: image_samples_def Let_def sample_series_def)

lemma images_series_distinct:
  assumes "list_all (image_ok v) imgs" and "images_distinct v imgs"
  shows "distinct (map sample_series (concat (map (image_samples v) imgs)))"
  using assms
proof (induction imgs)
  case (Cons a imgs)
  have "sample_series ` set (image_samples v a) \<inter> sample_series ` set (image_samples v b) = {}"
    if "b \<in> set imgs" for b
    using Cons.prems that
    by (intro image_samples_disjoint) (auto simp: images_distinct_def list_all_iff)
  then have "sample_series ` set (image_samples v a) \<inter>
      sample_series ` set (concat (map (image_samples v) imgs)) = {}"
    unfolding set_concat set_map image_UN Int_UN_distrib by blast
  moreover have "distinct (map sample_series (concat (map (image_samples v) imgs)))"
    using Cons by (auto simp: images_distinct_def)
  ultimately show ?case using image_samples_series_distinct [of v a] by simp
qed simp

section \<open>The metrics of the images pass the checks\<close>

lemma block_metrics_sound:
  assumes "block_wf ds ss" and "block_ok ds ss"
    and "\<forall>d \<in> snd ` set ds. \<exists>n h ls. d = NewDesc n h ls"
  shows "list_all metric_sound (block_metrics ty ds ss)"
proof -
  have "metric_sound (const_metric (the (map_of ds f)) (ty f) x vs)" if s: "(f, x, vs) \<in> set ss" for f x vs
  proof -
    have "f \<in> fst ` set ds" using assms(1) s by (force simp: block_wf_def)
    then obtain d where d: "map_of ds f = Some d" by (metis map_of_eq_None_iff not_None_eq)
    then obtain n h ls where "d = NewDesc n h ls"
      using assms(3) by (metis image_eqI map_of_SomeD snd_conv)
    moreover have "send_ok d vs"
      using assms(2) s d by (force simp: block_ok_def list_all_iff resolve_def)
    ultimately show ?thesis using d const_metric_sound by simp
  qed
  then show ?thesis by (auto simp: block_metrics_def list_all_iff)
qed

lemma descs_NewDesc: "d \<in> snd ` set (descs sub t ls) \<Longrightarrow> \<exists>n h ls. d = NewDesc n h ls"
  unfolding descs_def by auto blast

lemma image_metrics_sound:
  assumes "image_ok v rep"
  shows "list_all metric_sound (program_metrics image_value_type (image_blocks v rep))"
proof -
  have "list_all blk_wf (image_blocks v rep)" "list_all blk_ok (image_blocks v rep)"
    using image_rows.blocks_wf image_rows.blocks_ok assms by blast+
  then show ?thesis
    unfolding image_blocks_def two_part_blk_def program_metrics_simps append_Nil2 list.pred_inject blk_pair
    by (intro block_metrics_sound) (auto simp: image_Un dest!: descs_NewDesc)
qed

lemma images_metrics_sound:
  "list_all (image_ok v) imgs \<Longrightarrow>
     list_all metric_sound (program_metrics image_value_type (concat (map (image_blocks v) imgs)))"
  by (induction imgs) (simp_all add: image_metrics_sound)

text \<open>Help text and type depend on the name alone.\<close>

definition image_help :: "string \<Rightarrow> string" where
  "image_help n =
     (if n = ''podman_image_info'' then ''Image information.''
      else if n = ''podman_image_size'' then ''Image size.''
      else ''Image creation time in unixtime.'')"

lemma image_metrics_help:
  "m \<in> set (program_metrics image_value_type (image_blocks v rep)) \<Longrightarrow>
     desc_help (metric_desc m) = image_help (metric_name m) \<and> metric_type m = GaugeValue"
  by (auto simp: image_blocks_def two_part_blk_def block_metrics_def descs_def sends_def
      image_info_table_def image_metric_table_def const_metric_def image_help_def metric_name_def
      BuildFQName_def namespace_def image_value_type_def)

lemma images_metrics_consistent:
  "consistent (program_metrics image_value_type (concat (map (image_blocks v) imgs)))"
proof -
  have "desc_help (metric_desc m) = image_help (metric_name m) \<and> metric_type m = GaugeValue"
    if "m \<in> set (program_metrics image_value_type (concat (map (image_blocks v) imgs)))" for m
    using that by (induction imgs) (auto dest: image_metrics_help)
  then show ?thesis unfolding consistent_def by metis
qed

lemma images_gathered:
  assumes "list_all (image_ok v) imgs" and "images_distinct v imgs"
    and "ms = program_metrics image_value_type (concat (map (image_blocks v) imgs))"
    and "inj_on h (metric_key ` set ms)"
  shows "gather_errs (Gather h ms) = []"
proof -
  have "map series ms = map sample_series (concat (map (image_samples v) imgs))"
    unfolding image_scrape.rows_samples [symmetric] assms(3) by (simp add: series_sample)
  then have "distinct (map series ms)" using images_series_distinct [OF assms(1,2)] by simp
  then show ?thesis
    using Gather_all(1) [OF _ _ assms(4)] images_metrics_sound [OF assms(1)]
      images_metrics_consistent [of v imgs] assms(3) by simp
qed

text \<open>What the deduplication of the report guarantees for the info metric.\<close>

lemma dedup_label_values:
  assumes "list_all nul_free imgs"
  shows "distinct (map image_label_values (dedupImages imgs))"
proof -
  let ?ds = "dedupImages imgs"
  have "image_key a \<noteq> image_key b" if "a \<in> set ?ds" "b \<in> set ?ds" "a \<noteq> b" for a b
    using dedupImages_facts(1) [of imgs] that by (auto simp: distinct_map inj_on_def)
  moreover have "distinct ?ds" using dedupImages_facts(1) [of imgs] by (simp add: distinct_map)
  moreover have "nul_free a" if "a \<in> set ?ds" for a
    using that assms dedupImages_first_by [of imgs] first_by_subset [of image_key imgs]
    by (auto simp: list_all_iff)
  ultimately show ?thesis by (auto simp: distinct_map inj_on_def image_key_inject)
qed

end
