(* ===== verification/Scrape_Clean.thy ===== *)
theory Scrape_Clean
  imports Metric_Table Scrape_Gather
begin

text \<open>
  A whole scrape at the registry. When the reported objects are told apart (containers and pods by
  their identifiers, networks and volumes by their names, images by the labels of their entries),
  no two samples of a scrape are of one series, so the registry keeps every metric of every
  collector and reports no error.
\<close>

section \<open>Distinct series\<close>

text \<open>Rows with different keys have no series in common: then no series occurs twice.\<close>

lemma distinct_rows:
  assumes "\<And>r. r \<in> set rs \<Longrightarrow> distinct (map k (F r))" and "distinct (map key rs)"
    and "\<And>r r'. \<lbrakk>r \<in> set rs; r' \<in> set rs; key r \<noteq> key r'\<rbrakk> \<Longrightarrow> k ` set (F r) \<inter> k ` set (F r') = {}"
  shows "distinct (map k (concat (map F rs)))"
  using assms
proof (induction rs)
  case (Cons r rs)
  have "distinct (map k (concat (map F rs)))"
    using Cons.prems by (intro Cons.IH) simp_all
  moreover have "k ` set (F r) \<inter> k ` set (F r') = {}" if "r' \<in> set rs" for r'
    using Cons.prems(2) that by (intro Cons.prems(3)) (auto simp: image_iff)
  then have "k ` set (F r) \<inter> k ` set (concat (map F rs)) = {}"
    unfolding set_concat set_map image_UN Int_UN_distrib by blast
  ultimately show ?case using Cons.prems(1) [of r] by simp
qed simp

text \<open>A label that carries the key of its row keeps the series of rows apart.\<close>

definition carries :: "string \<Rightarrow> string \<Rightarrow> sample list \<Rightarrow> bool" where
  "carries label value xs \<longleftrightarrow> list_all (\<lambda>x. map_of (fst (snd (snd x))) label = Some value) xs"

lemma carries_disjoint:
  "\<lbrakk>carries l a xs; carries l b ys; a \<noteq> b\<rbrakk> \<Longrightarrow> sample_series ` set xs \<inter> sample_series ` set ys = {}"
  by (fastforce simp: carries_def list_all_iff sample_series_def)

lemma distinct_names: "distinct (map fst xs) \<Longrightarrow> distinct (map sample_series xs)"
  by (auto simp: distinct_map inj_on_def sample_series_def)

lemma labelled_rows:
  assumes "\<And>r. r \<in> set rs \<Longrightarrow> distinct (map fst (F r)) \<and> carries l (key r) (F r)" and "distinct (map key rs)"
  shows "distinct (map sample_series (concat (map F rs)))"
  using assms by (intro distinct_rows [where key = key]) (auto intro: distinct_names carries_disjoint [THEN equalityD1, THEN subsetD])

lemma map_of_filter: "map_of (filter (\<lambda>x. fst x = k) xs) k = map_of xs k"
  by (induction xs) auto

lemma map_of_label_pairs: "map_of (label_pairs ls vs) k = map_of (zip ls vs) k"
  using map_of_filter [of k "sort_key fst (zip ls vs)"] map_of_filter [of k "zip ls vs"]
  by (simp add: label_pairs_def sort_key_stable)

section \<open>The rows of each collector\<close>

lemma container_rows_labelled:
  "distinct (map fst (container_samples v st r)) \<and> carries ''id'' (cnt_ID r) (container_samples v st r)"
  by (cases "getContainerStat (cnt_ID r) st")
     (auto simp: container_samples_def Let_def container_state_samples_def
       container_usage_samples_def carries_def map_of_label_pairs full_labels_def full_values_def
       containerDefaultLabels_def container_label_values_def container_basic_values_def)

lemma pod_rows_labelled:
  "distinct (map fst (pod_samples v r)) \<and> carries ''id'' (pod_ID r) (pod_samples v r)"
  by (auto simp: pod_samples_def Let_def carries_def map_of_label_pairs full_labels_def full_values_def
      podDescDefaultLabels_def podDefaultLabels_def pod_label_values_def)

lemma network_rows_labelled:
  "distinct (map fst (network_samples r)) \<and> carries ''name'' (net_Name r) (network_samples r)"
  by (simp add: network_samples_def carries_def)

lemma volume_rows_labelled:
  "distinct (map fst (volume_samples v r)) \<and> carries ''name'' (vol_Name r) (volume_samples v r)"
  by (simp add: volume_samples_def carries_def Let_def)

lemma single_rows:
  "distinct (map fst (system_samples info))" "distinct (map fst (disk_usage_samples du))"
  by (simp_all add: system_samples_def disk_usage_samples_def)

text \<open>What tells the objects of an answer apart.\<close>

fun objects_distinct :: "label_vars \<Rightarrow> pdcs_answers \<Rightarrow> Collector \<Rightarrow> bool" where
  "objects_distinct v a (containerCollector c) \<longleftrightarrow>
     (case ans_Containers a of Ok reps \<Rightarrow> distinct (map cnt_ID reps) | _ \<Rightarrow> True)"
| "objects_distinct v a (imageCollector c) \<longleftrightarrow> rows_or (\<lambda>_. True) (images_distinct v) (ans_Images a)"
| "objects_distinct v a (podCollector c) \<longleftrightarrow> rows_or (\<lambda>_. True) (\<lambda>r. distinct (map pod_ID r)) (ans_Pods a)"
| "objects_distinct v a (networkCollector c) \<longleftrightarrow>
     rows_or (\<lambda>_. True) (\<lambda>r. distinct (map net_Name r)) (ans_Networks a)"
| "objects_distinct v a (volumeCollector c) \<longleftrightarrow>
     rows_or (\<lambda>_. True) (\<lambda>r. distinct (map vol_Name r)) (ans_Volumes a)"
| "objects_distinct v a (systemCollector c) \<longleftrightarrow> True"
| "objects_distinct v a (diskUsageCollector c) \<longleftrightarrow> True"

lemma collector_series_distinct:
  assumes "objects_distinct v a c" and "collector_ok v a c"
  shows "distinct (map sample_series (collector_samples v a c))"
proof (cases c)
  case (containerCollector c1)
  then show ?thesis
    using assms labelled_rows [OF container_rows_labelled]
    by (cases "ans_Containers a"; cases "ans_ContainersStats a") (auto simp: rows_or_def)
next
  case (imageCollector c1)
  then show ?thesis
    using assms images_series_distinct by (cases "ans_Images a") (auto simp: rows_or_def)
next
  case (podCollector c1)
  then show ?thesis
    using assms labelled_rows [OF pod_rows_labelled] by (cases "ans_Pods a") (auto simp: rows_or_def)
next
  case (networkCollector c1)
  then show ?thesis
    using assms labelled_rows [OF network_rows_labelled] by (cases "ans_Networks a") (auto simp: rows_or_def)
next
  case (volumeCollector c1)
  then show ?thesis
    using assms labelled_rows [OF volume_rows_labelled] by (cases "ans_Volumes a") (auto simp: rows_or_def)
next
  case (systemCollector c1)
  then show ?thesis
    using distinct_names [OF single_rows(1)] by (cases "ans_System a") auto
next
  case (diskUsageCollector c1)
  then show ?thesis
    using distinct_names [OF single_rows(2)] by (cases "ans_DiskUsage a") (auto simp: rows_or_def)
qed

section \<open>All collectors together\<close>

text \<open>The name a collector is registered under, which the names of its metrics begin with.\<close>

fun collector_kind :: "Collector \<Rightarrow> string" where
  "collector_kind (containerCollector c) = ''container''"
| "collector_kind (imageCollector c) = ''image''"
| "collector_kind (podCollector c) = ''pod''"
| "collector_kind (networkCollector c) = ''network''"
| "collector_kind (volumeCollector c) = ''volume''"
| "collector_kind (systemCollector c) = ''system''"
| "collector_kind (diskUsageCollector c) = ''disk_usage''"

lemma row_tags:
  "x \<in> set (container_samples v st r) \<Longrightarrow> take 10 (fst x) = ''podman_con''"
  "x \<in> set (image_samples v i) \<Longrightarrow> take 10 (fst x) = ''podman_ima''"
  "x \<in> set (pod_samples v p) \<Longrightarrow> take 10 (fst x) = ''podman_pod''"
  "x \<in> set (network_samples n) \<Longrightarrow> take 10 (fst x) = ''podman_net''"
  "x \<in> set (volume_samples v vol) \<Longrightarrow> take 10 (fst x) = ''podman_vol''"
  "x \<in> set (system_samples info) \<Longrightarrow> take 10 (fst x) = ''podman_sys''"
  "x \<in> set (disk_usage_samples du) \<Longrightarrow> take 10 (fst x) = ''podman_dis''"
  "x \<in> set (scrape_samples name d err) \<Longrightarrow> take 10 (fst x) = ''podman_scr''"
  by (auto simp: container_samples_def Let_def container_state_samples_def
      container_usage_samples_def image_samples_def pod_samples_def network_samples_def
      volume_samples_def system_samples_def disk_usage_samples_def scrape_samples_def
      split: option.splits)

lemma collector_tags:
  "x \<in> set (collector_samples v a c) \<Longrightarrow> take 10 (fst x) = ''podman_'' @ take 3 (collector_kind c)"
  by (cases c) (auto simp: rows_or_def row_tags split: outcome.splits sum.splits)

lemma kind_tags:
  "take 3 (collector_kind c) = take 3 (collector_kind c') \<longleftrightarrow> collector_kind c = collector_kind c'"
  "take 3 (collector_kind c) \<noteq> ''scr''"
  by (cases c; cases c'; simp) (cases c; simp)

lemma tags_disjoint:
  "\<lbrakk>\<And>x. x \<in> set xs \<Longrightarrow> take 10 (fst x) = s; \<And>y. y \<in> set ys \<Longrightarrow> take 10 (fst y) = t; s \<noteq> t\<rbrakk> \<Longrightarrow>
     sample_series ` set xs \<inter> sample_series ` set ys = {}"
  by (force simp: sample_series_def)

lemma scrape_rows: "distinct (map fst (scrape_samples n d err)) \<and> carries ''collector'' n (scrape_samples n d err)"
  by (simp add: scrape_samples_def carries_def)

lemma collector_scrape_disjoint:
  "sample_series ` set (collector_samples v a c) \<inter> sample_series ` set (scrape_samples n d err) = {}"
  using kind_tags(2) by (intro tags_disjoint [OF collector_tags row_tags(8)]) auto

definition scrape_row :: "label_vars \<Rightarrow> pdcs_answers \<Rightarrow> int64 \<times> string \<times> Collector \<Rightarrow> sample list" where
  "scrape_row v a r =
     (case r of (d, n, c) \<Rightarrow> collector_samples v a c @ scrape_samples n d (collector_error a c))"

lemma disjoint_parts:
  "\<lbrakk>A \<inter> A' = {}; B \<inter> B' = {}; A \<inter> B' = {}; A' \<inter> B = {}\<rbrakk> \<Longrightarrow> (A \<union> B) \<inter> (A' \<union> B') = {}"
  by blast

lemma scrape_rows_disjoint:
  assumes "collector_kind c \<noteq> collector_kind c'"
  shows "sample_series ` set (scrape_row v a (d, collector_kind c, c)) \<inter>
    sample_series ` set (scrape_row v a (d', collector_kind c', c')) = {}"
  unfolding scrape_row_def prod.case set_append image_Un
proof (rule disjoint_parts)
  show "sample_series ` set (collector_samples v a c) \<inter> sample_series ` set (collector_samples v a c') = {}"
    using assms kind_tags(1) by (intro tags_disjoint [OF collector_tags collector_tags]) auto
  show "sample_series ` set (scrape_samples (collector_kind c) d (collector_error a c)) \<inter>
      sample_series ` set (scrape_samples (collector_kind c') d' (collector_error a c')) = {}"
    using scrape_rows assms by (intro carries_disjoint) auto
qed (rule collector_scrape_disjoint)+

lemma expected_series_distinct:
  assumes "length ds = length cs" and "distinct (map fst cs)"
    and "\<forall>(n, c) \<in> set cs. collector_kind c = n \<and> objects_distinct v a c \<and> collector_ok v a c"
  shows "distinct (map sample_series (expected_samples v a ds cs))"
proof -
  have eq: "expected_samples v a ds cs = concat (map (scrape_row v a) (zip ds cs))"
    unfolding expected_samples_def scrape_row_def
    by (intro arg_cong [of _ _ concat] map_cong refl)
  have "distinct (map sample_series (concat (map (scrape_row v a) (zip ds cs))))"
  proof (rule distinct_rows [where key = "\<lambda>r. fst (snd r)"])
    fix r
    assume "r \<in> set (zip ds cs)"
    then obtain d n c where r: "r = (d, n, c)" "(n, c) \<in> set cs" by (metis set_zip_rightD surj_pair)
    then show "distinct (map sample_series (scrape_row v a r))"
      using collector_series_distinct [of v a c] distinct_names [of "scrape_samples n d (collector_error a c)"]
        scrape_rows [of n d "collector_error a c"] collector_scrape_disjoint [of v a c n d "collector_error a c"]
        assms(3) by (auto simp: scrape_row_def)
  next
    have "map (\<lambda>r. fst (snd r)) (zip ds cs) = map fst cs"
      using assms(1) by (metis (no_types, lifting) comp_apply list.map_comp map_eq_conv map_snd_zip)
    then show "distinct (map (\<lambda>r. fst (snd r)) (zip ds cs))" using assms(2) by simp
  next
    fix r r'
    assume r: "r \<in> set (zip ds cs)" "r' \<in> set (zip ds cs)" "fst (snd r) \<noteq> fst (snd r')"
    obtain d n c where c: "r = (d, n, c)" "(n, c) \<in> set cs" using r(1) by (metis set_zip_rightD surj_pair)
    obtain d' n' c' where c': "r' = (d', n', c')" "(n', c') \<in> set cs"
      using r(2) by (metis set_zip_rightD surj_pair)
    have "n = collector_kind c" "n' = collector_kind c'" using assms(3) c(2) c'(2) by auto
    with r(3) c(1) c'(1) show "sample_series ` set (scrape_row v a r) \<inter> sample_series ` set (scrape_row v a r') = {}"
      using scrape_rows_disjoint by simp
  qed
  then show ?thesis by (simp only: eq)
qed

lemma Collected_ok:
  assumes "collectors_built v cs" and "Collect v a ds cs (Collected cs' ms)"
  shows "length ds = length cs" and "list_all (\<lambda>(_, c). collector_ok v a c) cs"
proof -
  show len: "length ds = length cs" using assms(2) by (auto elim: CollectedE)
  show "list_all (\<lambda>(_, c). collector_ok v a c) cs"
  proof (rule ccontr)
    assume "\<not> list_all (\<lambda>(_, c). collector_ok v a c) cs"
    from executions_panic [OF assms(1) this len]
    show False using assms(2) by (fastforce elim: CollectedE simp: list_all_iff)
  qed
qed

text \<open>No series occurs twice, so the registry keeps a whole scrape.\<close>

lemma scrape_distinct:
  assumes "collectors_built v cs" and "distinct (map fst cs)"
    and "\<forall>(n, c) \<in> set cs. collector_kind c = n \<and> descs_set c \<and> objects_distinct v a c"
    and "Collect v a ds cs (Collected cs' ms)"
  shows "distinct (map series ms)"
proof -
  note ok = Collected_ok [OF assms(1,4)]
  have "mset (map sample ms) = mset (expected_samples v a ds cs)"
    using Collect_complete [OF assms(1) ok(2) assms(4)] by auto
  then have "mset (map sample_series (map sample ms)) = mset (map sample_series (expected_samples v a ds cs))"
    by (simp only: mset_map)
  moreover have "distinct (map sample_series (expected_samples v a ds cs))"
    using ok assms(2,3) by (intro expected_series_distinct) (auto simp: list_all_iff)
  ultimately have "distinct (map sample_series (map sample ms))" by (metis mset_eq_imp_distinct_iff)
  then show ?thesis by (simp add: series_sample [abs_def] comp_def)
qed

lemma scrape_gathered:
  assumes "collectors_built v cs" and "distinct (map fst cs)"
    and "\<forall>(n, c) \<in> set cs. collector_kind c = n \<and> descs_set c \<and> objects_distinct v a c"
    and "Collect v a ds cs (Collected cs' ms)" and "inj_on h (metric_key ` set ms)"
  shows "gather_errs (Gather h ms) = []"
    and "families (Gather h ms) n =
      (case filter (\<lambda>m. metric_name m = n) ms of
         [] \<Rightarrow> None
       | m0 # _ \<Rightarrow> Some \<lparr>fam_help = desc_help (metric_desc m0), fam_type = metric_type m0,
                          fam_metrics = filter (\<lambda>m. metric_name m = n) ms\<rparr>)"
proof -
  have "list_all (\<lambda>(_, c). descs_set c) cs" using assms(3) by (auto simp: list_all_iff)
  then have listed: "list_all metric_listed ms" using Collect_listed [OF assms(4)] by blast
  have sound: "list_all metric_sound ms" using listed by (auto simp: list_all_iff metric_listed_def)
  show "gather_errs (Gather h ms) = []"
    "families (Gather h ms) n =
      (case filter (\<lambda>m. metric_name m = n) ms of
         [] \<Rightarrow> None
       | m0 # _ \<Rightarrow> Some \<lparr>fam_help = desc_help (metric_desc m0), fam_type = metric_type m0,
                          fam_metrics = filter (\<lambda>m. metric_name m = n) ms\<rparr>)"
    using Gather_all [OF sound metrics_listed_consistent [OF listed] assms(5) scrape_distinct [OF assms(1-4)]]
    by blast+
qed

section \<open>The tables name their collectors\<close>

definition well_named :: "string \<times> Collector \<Rightarrow> bool" where
  "well_named x \<longleftrightarrow> collector_kind (snd x) = fst x \<and> descs_set (snd x)"

definition tables_named :: "collector_tables \<Rightarrow> bool" where
  "tables_named t \<longleftrightarrow>
     (\<forall>(n, f) \<in> set (factories t). \<forall>v c. f v = Inr c \<longrightarrow> well_named (n, c)) \<and>
     (\<forall>x \<in> set (initiatedCollectors t). well_named x)"

lemma factories_well_named:
  "well_named (''container'', containerCollector NewContainerStatsCollector)"
  "well_named (''image'', imageCollector NewImageStatsCollector)"
  "well_named (''pod'', podCollector NewPodStatsCollector)"
  "well_named (''network'', networkCollector NewNetworkStatsCollector)"
  "well_named (''volume'', volumeCollector (NewVolumeStatsCollector v))"
  "well_named (''system'', systemCollector NewSystemCollector)"
  "well_named (''disk_usage'', diskUsageCollector NewDiskUsageCollector)"
  by (simp_all add: well_named_def static_structs_listed struct_listed_def
      NewContainerStatsCollector_def NewImageStatsCollector_def NewPodStatsCollector_def)
     (simp_all add: static_structs_listed [unfolded struct_listed_def])

lemma set_AList_update: "set (AList.update k x xs) \<subseteq> insert (k, x) (set xs)"
  by (induction xs) auto

lemma registerCollector_named:
  "\<lbrakk>tables_named t; \<And>v c. f v = Inr c \<Longrightarrow> well_named (n, c)\<rbrakk> \<Longrightarrow>
     tables_named (registerCollector n e f t)"
  by (auto simp: tables_named_def registerCollector_def dest!: subsetD [OF set_AList_update])

lemma init_tables_named: "tables_named init_tables"
  unfolding init_tables_def collector_inits comp_def
  by (intro registerCollector_named)
     (auto simp: factories_well_named tables_named_def initial_tables_def)

lemma new_collectors_named:
  "\<lbrakk>new_collectors v states cs t = Ok (cs', t'); tables_named t; \<forall>x \<in> set cs. well_named x\<rbrakk> \<Longrightarrow>
     tables_named t' \<and> (\<forall>x \<in> set cs'. well_named x)"
proof (induction v states cs t rule: new_collectors.induct)
  case (2 v key enabled states cs t)
  show ?case
  proof (cases enabled)
    case False
    then show ?thesis using 2 by simp
  next
    case enabled: True
    show ?thesis
    proof (cases "map_of (initiatedCollectors t) key")
      case (Some c)
      then have "well_named (key, c)" using "2.prems"(2) by (auto simp: tables_named_def dest: map_of_SomeD)
      then have "\<forall>x \<in> set (AList.update key c cs). well_named x"
        using set_AList_update [of key c cs] "2.prems"(3) by auto
      then show ?thesis using "2.IH"(3) [OF _ Some] "2.prems" enabled Some by simp
    next
      case None
      obtain f c where f: "map_of (factories t) key = Some f" "f v = Inr c"
        using "2.prems"(1) enabled None by (auto split: option.splits sum.splits)
      have c: "well_named (key, c)" using f "2.prems"(2) by (fastforce simp: tables_named_def dest: map_of_SomeD)
      let ?t = "t\<lparr>initiatedCollectors := AList.update key c (initiatedCollectors t)\<rparr>"
      have "tables_named ?t"
        using c set_AList_update [of key c "initiatedCollectors t"] "2.prems"(2) by (auto simp: tables_named_def)
      moreover have "\<forall>x \<in> set (AList.update key c cs). well_named x"
        using c set_AList_update [of key c cs] "2.prems"(3) by auto
      ultimately show ?thesis using "2.IH"(2) [OF _ None f] "2.prems"(1) enabled None f by simp
    qed
  qed
qed simp

end
