(* ===== verification/Exporter_Scrape.thy ===== *)
theory Exporter_Scrape
  imports Exporter_Start Scrape_Clean
begin

text \<open>
  A started exporter and its scrapes: the collectors of its handler are named as they are
  registered and have only listed descriptors, so its scrapes are clean at the registry.
\<close>

lemma setEnabledCollectors_named:
  "tables_named (snd (setEnabledCollectors opts (v, init_tables)))"
proof -
  have "tables_named (SetPodmanCollectorState n b t)" if "tables_named t" for n b t
    using that by (simp add: tables_named_def SetPodmanCollectorState_def)
  then have "tables_named (fold (\<lambda>col. SetPodmanCollectorState col True) cols t)" if "tables_named t" for cols t
    using that by (induction cols arbitrary: t) simp_all
  then show ?thesis using init_tables_named by (simp add: setEnabledCollectors_def)
qed

lemma newHandler_named:
  assumes "newHandler v disable maxReq t = Ok (h, logged, t')" and "tables_named t"
  shows "\<forall>x \<in> set (sh_collectors (unfilteredHandler h)). well_named x"
proof -
  obtain cs t1 where n: "new_collectors v (collectorState t) [] t = Ok (cs, t1)"
    and "sh_collectors (unfilteredHandler h) = cs"
    using assms(1)
    by (auto simp: newHandler_def innerHandler_def NewPodmanCollector_def Let_def
        split: outcome.splits sum.splits)
  then show ?thesis using new_collectors_named [OF n assms(2)] by simp
qed

lemma setup_http_named:
  assumes "setup_http env opts (collectors_set opts) = Ok s" and "ex_handler s = Some h"
  shows "\<forall>x \<in> set (sh_collectors (unfilteredHandler h)). well_named x"
proof -
  obtain h' logged t' where
    h: "newHandler (label_options opts) (webDisableExporterMetrics opts) (webMaxRequests opts)
      (snd (setEnabledCollectors opts (initial_label_vars, init_tables))) = Ok (h', logged, t')"
    and "ex_handler s = Some h'"
    using assms(1)
    by (auto simp: setup_http_def setup_collectors_sel http_Handle_def outcome split: if_splits)
  then show ?thesis using newHandler_named [OF h setEnabledCollectors_named] assms(2) by simp
qed

lemma setup_collectors_handler: "ex_handler (collectors_set opts) = None"
  unfolding setup_collectors_initial by (simp add: initial_state_def)

lemma setup_pdcs_handler: "setup_pdcs env opts s = Ok s' \<Longrightarrow> ex_handler s' = ex_handler s"
  by (auto simp: setup_pdcs_def StartCacheSizeTicker_def StartDiskUsageTicker_def NewTicker_def
      outcome Let_def split: if_splits)

lemma Start_handler_named:
  assumes "parseOptions fs = Inr opts" and "ex_handler (snd (Start env fs initial_state)) = Some h"
  shows "\<forall>x \<in> set (sh_collectors (unfilteredHandler h)). well_named x"
proof (cases "setup_http env opts (collectors_set opts)")
  case (Ok s)
  have "ex_handler s = Some h"
    using assms Ok
    by (auto simp: Start_steps [OF assms(1)] SetupRegistry_def SetContainerStatsTimeout_def Let_def
        split: outcome.splits if_splits dest!: setup_pdcs_handler)
  then show ?thesis using setup_http_named [OF Ok] by blast
qed (use assms setup_collectors_handler [of opts] in \<open>auto simp: Start_steps\<close>)

text \<open>The objects of the answers are told apart, for every collector of the handler.\<close>

definition answers_distinct :: "label_vars \<Rightarrow> pdcs_answers \<Rightarrow> bool" where
  "answers_distinct v a \<longleftrightarrow>
     (case ans_Containers a of Ok reps \<Rightarrow> distinct (map cnt_ID reps) | _ \<Rightarrow> True) \<and>
     rows_or (\<lambda>_. True) (images_distinct v) (ans_Images a) \<and>
     rows_or (\<lambda>_. True) (\<lambda>r. distinct (map pod_ID r)) (ans_Pods a) \<and>
     rows_or (\<lambda>_. True) (\<lambda>r. distinct (map net_Name r)) (ans_Networks a) \<and>
     rows_or (\<lambda>_. True) (\<lambda>r. distinct (map vol_Name r)) (ans_Volumes a)"

lemma answers_distinct_objects: "answers_distinct v a \<Longrightarrow> objects_distinct v a c"
  by (cases c) (simp_all add: answers_distinct_def)

end
