(* ===== verification/Prom_Normalize.thy ===== *)
theory Prom_Normalize
  imports Prom_Registry
begin

text \<open>
  How the registry orders what it gathered (\<open>prometheus/internal/metric.go\<close>). \<open>sort.Sort\<close> is not
  stable and says nothing of elements that compare equal, so a sorted result is any permutation in
  which no element is less than an earlier one (\<open>sorts\<close>). The interface \<open>key_sort\<close> is a comparison
  that compares keys of a linear order; when the keys are told apart the result is unique and is
  that of the library's \<open>sort_key\<close>.
\<close>

section \<open>Sorting with a comparison\<close>

definition sorts :: "('a \<Rightarrow> 'a \<Rightarrow> bool) \<Rightarrow> 'a list \<Rightarrow> 'a list \<Rightarrow> bool" where
  "sorts lt xs ys \<longleftrightarrow> mset ys = mset xs \<and> sorted_wrt (\<lambda>x y. \<not> lt y x) ys"

locale key_sort =
  fixes lt :: "'a \<Rightarrow> 'a \<Rightarrow> bool"
    and key :: "'a \<Rightarrow> 'k::linorder"
  assumes less_key: "lt x y \<longleftrightarrow> key x < key y"
begin

lemma sorts_iff: "sorts lt xs ys \<longleftrightarrow> mset ys = mset xs \<and> sorted (map key ys)"
  by (simp add: sorts_def less_key not_less sorted_wrt_map)

lemma sorts_exists: "sorts lt xs (sort_key key xs)"
  by (simp add: sorts_iff)

lemma sorts_unique:
  assumes "sorts lt xs ys" and "inj_on key (set xs)"
  shows "ys = sort_key key xs"
proof -
  have ys: "mset ys = mset xs" "sorted (map key ys)" using assms(1) by (simp_all add: sorts_iff)
  have "sort_key key xs = sort_key key ys"
    using ys(1) assms(2) by (intro sort_key_inj_key_eq) simp_all
  then show ?thesis using ys(2) by (simp add: sorted_sort_id sort_key_id_if_sorted)
qed

end

lemma map_insort_key: "map f (insort_key (g \<circ> f) x xs) = insort_key g (f x) (map f xs)"
  by (induction xs) simp_all

lemma map_sort_key: "map f (sort_key (g \<circ> f) xs) = sort_key g (map f xs)"
  by (induction xs) (simp_all only: sort_key_simps list.map map_insort_key)

lemma sort_remdups_cong: "set xs = set ys \<Longrightarrow> sort (remdups xs) = sort (remdups ys)"
  by (intro sorted_distinct_set_unique) simp_all

section \<open>The three orders of the client\<close>

text \<open>\<open>MetricSorter.Less\<close>; constant metrics have no timestamp, so metrics that agree in the values are equal.\<close>

fun values_less :: "(string \<times> string) list \<Rightarrow> (string \<times> string) list \<Rightarrow> bool" where
  "values_less ((_, vi) # xs) ((_, vj) # ys) = (if vi \<noteq> vj then vi < vj else values_less xs ys)"
| "values_less _ _ = False"

definition MetricSorter_Less :: "metric \<Rightarrow> metric \<Rightarrow> bool" where
  "MetricSorter_Less a b =
     (if length (metric_labels a) \<noteq> length (metric_labels b)
      then length (metric_labels a) < length (metric_labels b)
      else values_less (metric_labels a) (metric_labels b))"

definition LabelPairSorter_Less :: "string \<times> string \<Rightarrow> string \<times> string \<Rightarrow> bool" where
  "LabelPairSorter_Less a b = (fst a < fst b)"

text \<open>The linear order of the first: the number of labels, then their values.\<close>

datatype metric_rank = Rank nat "string list"

instantiation metric_rank :: linorder
begin

fun less_eq_metric_rank :: "metric_rank \<Rightarrow> metric_rank \<Rightarrow> bool" where
  "less_eq_metric_rank (Rank n vs) (Rank m ws) \<longleftrightarrow> n < m \<or> n = m \<and> vs \<le> ws"

fun less_metric_rank :: "metric_rank \<Rightarrow> metric_rank \<Rightarrow> bool" where
  "less_metric_rank (Rank n vs) (Rank m ws) \<longleftrightarrow> n < m \<or> n = m \<and> vs < ws"

instance
proof
  fix x y z :: metric_rank
  show "x < y \<longleftrightarrow> x \<le> y \<and> \<not> y \<le> x" by (cases x; cases y) auto
  show "x \<le> x" by (cases x) auto
  show "x \<le> y \<Longrightarrow> y \<le> z \<Longrightarrow> x \<le> z" by (cases x; cases y; cases z) auto
  show "x \<le> y \<Longrightarrow> y \<le> x \<Longrightarrow> x = y" by (cases x; cases y) auto
  show "x \<le> y \<or> y \<le> x" by (cases x; cases y) auto
qed

end

definition labels_rank :: "(string \<times> string) list \<Rightarrow> metric_rank" where
  "labels_rank ls = Rank (length ls) (map snd ls)"

lemma values_less_lex:
  "length xs = length ys \<Longrightarrow> values_less xs ys \<longleftrightarrow> map snd xs < map snd ys"
  by (induction xs ys rule: values_less.induct) auto

lemma labels_rank_eq_iff: "labels_rank xs = labels_rank ys \<longleftrightarrow> map snd xs = map snd ys"
  by (auto simp: labels_rank_def dest: arg_cong [where f = length])

interpretation metric_order: key_sort MetricSorter_Less "labels_rank \<circ> metric_labels"
  by unfold_locales (auto simp: MetricSorter_Less_def labels_rank_def values_less_lex)

interpretation label_order: key_sort LabelPairSorter_Less fst
  by unfold_locales (simp add: LabelPairSorter_Less_def)

interpretation string_order: key_sort "(<)" "\<lambda>s :: string. s"
  by unfold_locales simp

text \<open>So the label pairs of a metric do not depend on how \<open>sort.Sort\<close> treats equal elements.\<close>

lemma MakeLabelPairs_sorts:
  assumes "distinct (variableLabels d)" and "length vs = length (variableLabels d)"
  shows "sorts LabelPairSorter_Less (zip (variableLabels d) vs) ls \<longleftrightarrow> ls = MakeLabelPairs d vs"
proof
  have "distinct (map fst (zip (variableLabels d) vs))" using assms by simp
  then have "inj_on fst (set (zip (variableLabels d) vs))" by (simp only: distinct_map)
  then show "sorts LabelPairSorter_Less (zip (variableLabels d) vs) ls \<Longrightarrow> ls = MakeLabelPairs d vs"
    unfolding MakeLabelPairs_def by (rule label_order.sorts_unique [rotated])
qed (simp add: MakeLabelPairs_def label_order.sorts_exists)

section \<open>Normalizing families\<close>

type_synonym family = "string \<times> metric_family"

text \<open>An order in which Go ranges over the map of families.\<close>

definition ranges_over :: "string list \<Rightarrow> (string \<rightharpoonup> metric_family) \<Rightarrow> bool" where
  "ranges_over names fams \<longleftrightarrow> distinct names \<and> set names = dom fams"

text \<open>
  The metrics of every family are sorted, families without a metric are dropped, the rest is in the
  order of the names; \<open>order\<close> is the order of the iteration that collects the names.
\<close>

definition NormalizeMetricFamilies ::
  "string list \<Rightarrow> (string \<rightharpoonup> metric_family) \<Rightarrow> family list \<Rightarrow> bool" where
  "NormalizeMetricFamilies order fams result \<longleftrightarrow>
     sorts (<) (filter (\<lambda>n. 0 < length (fam_metrics (the (fams n)))) order) (map fst result) \<and>
     list_all (\<lambda>(n, mf).
       fam_help mf = fam_help (the (fams n)) \<and> fam_type mf = fam_type (the (fams n)) \<and>
       sorts MetricSorter_Less (fam_metrics (the (fams n))) (fam_metrics mf)) result"

lemma sorted_names_unique:
  assumes "sorts (<) xs ys" and "distinct xs"
  shows "ys = sort (remdups xs :: string list)"
  using string_order.sorts_unique [OF assms(1)] assms(2) by (simp add: distinct_remdups_id)

lemma normalized_names:
  assumes "\<And>n. (families g n = None \<longleftrightarrow> n \<notin> set names)"
    and "\<And>n fam. families g n = Some fam \<Longrightarrow> fam_metrics fam \<noteq> []"
    and "ranges_over order (families g)" and "NormalizeMetricFamilies order (families g) mfs"
  shows "map fst mfs = sort (remdups names)"
proof -
  have order: "distinct order" "set order = set names"
    using assms(1,3) by (auto simp: ranges_over_def dom_def)
  have "filter (\<lambda>n. 0 < length (fam_metrics (the (families g n)))) order = order"
    using assms(1,2) order(2) by (intro filter_True) auto
  then have "sorts (<) order (map fst mfs)" using assms(4) by (simp add: NormalizeMetricFamilies_def)
  then have "map fst mfs = sort order" using sorted_names_unique order(1) by (simp add: distinct_remdups_id)
  moreover have "sort order = sort (remdups names)"
    using sort_remdups_cong [OF order(2)] order(1) by (simp add: distinct_remdups_id)
  ultimately show ?thesis by simp
qed

text \<open>What was gathered can be ranged over and normalized.\<close>

lemma processMetric_dom:
  "dom (families (snd (processMetric h m g))) \<subseteq> insert (metric_name m) (dom (families g))"
  by (auto simp: processMetric_def Let_def metric_name_def split: option.splits prod.splits if_splits)

lemma gather_dom: "dom (families (Gather h ms)) \<subseteq> metric_name ` set ms"
proof (induction ms rule: rev_induct)
  case (snoc m ms)
  have "families (receive h m g) = families (snd (processMetric h m g))" for g
    by (simp add: receive_def split: prod.split option.split)
  then have "dom (families (receive h m g)) \<subseteq> insert (metric_name m) (dom (families g))" for g
    using processMetric_dom [of h m g] by simp
  then show ?case using snoc.IH by (fastforce simp: Gather_snoc)
qed (simp add: Gather_def gather_init_def)

lemma Gather_ranged: "\<exists>order. ranges_over order (families (Gather h ms))"
proof -
  have "finite (dom (families (Gather h ms)))" using gather_dom by (rule finite_subset) simp
  then show ?thesis using finite_distinct_list by (metis ranges_over_def)
qed

lemma normalized_exists:
  assumes "ranges_over order fams"
  shows "\<exists>result. NormalizeMetricFamilies order fams result"
proof -
  let ?names = "sort (filter (\<lambda>n. 0 < length (fam_metrics (the (fams n)))) order)"
  let ?fam = "\<lambda>n. (the (fams n))\<lparr>fam_metrics :=
    sort_key (labels_rank \<circ> metric_labels) (fam_metrics (the (fams n)))\<rparr>"
  have "sorts (<) (filter (\<lambda>n. 0 < length (fam_metrics (the (fams n)))) order) ?names"
    using string_order.sorts_exists by simp
  then have "NormalizeMetricFamilies order fams (map (\<lambda>n. (n, ?fam n)) ?names)"
    using metric_order.sorts_exists by (simp add: NormalizeMetricFamilies_def list_all_iff comp_def)
  then show ?thesis by blast
qed

text \<open>The name, the help text, the type, and label pairs with the values: what is on the wire.\<close>

type_synonym wire_family = "string \<times> string \<times> value_type \<times> ((string \<times> string) list \<times> f64) list"

definition wire :: "family \<Rightarrow> wire_family" where
  "wire f = (fst f, fam_help (snd f), fam_type (snd f),
     map (\<lambda>m. (metric_labels m, metric_value m)) (fam_metrics (snd f)))"

end
