(* ===== verification/Prom_Gatherers.thy ===== *)
theory Prom_Gatherers
  imports Prom_Normalize
begin

text \<open>
  From the registries to the answer of a request: \<open>Gatherers.Gather\<close> (\<open>prometheus/registry.go\<close>) merges
  what several registries gathered and checks every metric again, and the handler of
  \<open>promhttp/http.go\<close>, with errors continued on as the exporter configures it, answers with the
  families the request names. As in \<open>Prom_Registry\<close> no metric is a summary or a histogram, so the
  check of suffixes never fires. Map iterations and unstable sorts make both calls relations.
\<close>

type_synonym gathered = "family list \<times> gather_err list"

section \<open>One registry\<close>

inductive gathers :: "(string \<Rightarrow> uint64) \<Rightarrow> metric list \<Rightarrow> gathered \<Rightarrow> bool" for h ms where
  gathers: "\<lbrakk>ranges_over order (families (Gather h ms));
      NormalizeMetricFamilies order (families (Gather h ms)) mfs\<rbrakk> \<Longrightarrow>
    gathers h ms (mfs, gather_errs (Gather h ms))"

section \<open>Several registries\<close>

definition merge_metric :: "(string \<Rightarrow> uint64) \<Rightarrow> string \<Rightarrow> metric \<Rightarrow> gather_state \<Rightarrow> gather_state" where
  "merge_metric h n m g =
     (let fam = the (families g n) in
      case checkMetricConsistency h n fam m (metricHashes g) of
        (Some e, hs) \<Rightarrow> g\<lparr>metricHashes := hs, gather_errs := gather_errs g @ [e]\<rparr>
      | (None, hs) \<Rightarrow>
          g\<lparr>metricHashes := hs,
            families := (families g)(n \<mapsto> fam\<lparr>fam_metrics := fam_metrics fam @ [m]\<rparr>)\<rparr>)"

definition merge_family :: "(string \<Rightarrow> uint64) \<Rightarrow> family \<Rightarrow> gather_state \<Rightarrow> gather_state" where
  "merge_family h f g =
     (let (n, mf) = f in
      case families g n of
        Some existing \<Rightarrow>
          (if fam_help existing \<noteq> fam_help mf
           then g\<lparr>gather_errs := gather_errs g @ [HelpMismatch n]\<rparr>
           else if fam_type existing \<noteq> fam_type mf
           then g\<lparr>gather_errs := gather_errs g @ [TypeMismatch n]\<rparr>
           else fold (merge_metric h n) (fam_metrics mf) g)
      | None \<Rightarrow>
          fold (merge_metric h n) (fam_metrics mf)
            (g\<lparr>families := (families g)(n \<mapsto> mf\<lparr>fam_metrics := []\<rparr>)\<rparr>))"

definition merge_gathered :: "(string \<Rightarrow> uint64) \<Rightarrow> gathered \<Rightarrow> gather_state \<Rightarrow> gather_state" where
  "merge_gathered h r g =
     fold (merge_family h) (fst r) (g\<lparr>gather_errs := gather_errs g @ snd r\<rparr>)"

definition merge_all :: "(string \<Rightarrow> uint64) \<Rightarrow> gathered list \<Rightarrow> gather_state" where
  "merge_all h rs = fold (merge_gathered h) rs gather_init"

inductive Gatherers_Gather :: "(string \<Rightarrow> uint64) \<Rightarrow> gathered list \<Rightarrow> gathered \<Rightarrow> bool" for h rs where
  gatherers: "\<lbrakk>ranges_over order (families (merge_all h rs));
      NormalizeMetricFamilies order (families (merge_all h rs)) mfs\<rbrakk> \<Longrightarrow>
    Gatherers_Gather h rs (mfs, gather_errs (merge_all h rs))"

inductive_cases gathersE: "gathers h ms r"
inductive_cases Gatherers_GatherE: "Gatherers_Gather h rs r"

section \<open>The answer\<close>

datatype answer =
    InternalServerError "gather_err list"
  | Families "family list"

text \<open>The families a request with \<open>name[]\<close> parameters does not name are left out.\<close>

definition served_families :: "string list \<Rightarrow> family list \<Rightarrow> family list" where
  "served_families names mfs = filter (\<lambda>f. length names = 0 \<or> fst f \<in> set names) mfs"

definition respond :: "string list \<Rightarrow> gathered \<Rightarrow> answer" where
  "respond names r =
     (if snd r \<noteq> [] \<and> length (fst r) = 0 then InternalServerError (snd r)
      else Families (served_families names (fst r)))"

text \<open>
  A request: the exporter's own registry and the one of the collectors are gathered one after the
  other, merged and served.
\<close>

inductive answers ::
  "(string \<Rightarrow> uint64) \<Rightarrow> metric list \<Rightarrow> metric list \<Rightarrow> string list \<Rightarrow> answer \<Rightarrow> bool"
  for h own received names where
  answers: "\<lbrakk>gathers h own r1; gathers h received r2; Gatherers_Gather h [r1, r2] r\<rbrakk> \<Longrightarrow>
    answers h own received names (respond names r)"

inductive_cases answersE: "answers h own received names ans"

section \<open>Merging gathers again\<close>

text \<open>A family as \<open>Gather\<close> makes them: not empty, and its metrics agree with it.\<close>

definition family_sound :: "family \<Rightarrow> bool" where
  "family_sound f \<longleftrightarrow> fam_metrics (snd f) \<noteq> [] \<and>
     list_all (\<lambda>m. metric_sound m \<and> metric_name m = fst f \<and>
       desc_help (metric_desc m) = fam_help (snd f) \<and> metric_type m = fam_type (snd f)) (fam_metrics (snd f))"

lemma receive_merge_further:
  assumes "metric_sound m" and "families g (metric_name m) = Some fam"
    and "fam_help fam = desc_help (metric_desc m)" and "fam_type fam = metric_type m"
  shows "receive h m g = merge_metric h (metric_name m) m g"
  using receive_further [OF assms] consistency_sound [OF assms(1,4)] assms(2)
  by (simp add: merge_metric_def Let_def)

lemma merge_metric_family:
  assumes "families g n = Some fam"
  shows "\<exists>xs. families (merge_metric h n m g) n = Some (fam\<lparr>fam_metrics := xs\<rparr>)"
proof (cases "fst (checkMetricConsistency h n fam m (metricHashes g))")
  case None
  then show ?thesis using assms by (auto simp: merge_metric_def Let_def split: prod.split option.split)
next
  case (Some e)
  then have "families (merge_metric h n m g) n = Some fam"
    using assms by (auto simp: merge_metric_def Let_def split: prod.split option.split)
  then show ?thesis by (intro exI [of _ "fam_metrics fam"]) simp
qed

lemma merge_metrics_receive:
  assumes "list_all (\<lambda>m. metric_sound m \<and> metric_name m = n \<and>
      desc_help (metric_desc m) = fam_help fam \<and> metric_type m = fam_type fam) ms"
    and "families g n = Some fam"
  shows "fold (merge_metric h n) ms g = fold (receive h) ms g"
  using assms
proof (induction ms arbitrary: g fam)
  case (Cons m ms)
  have step: "receive h m g = merge_metric h n m g"
    using Cons.prems receive_merge_further [of m g fam h] by auto
  obtain xs where "families (merge_metric h n m g) n = Some (fam\<lparr>fam_metrics := xs\<rparr>)"
    using merge_metric_family [OF Cons.prems(2)] by blast
  with Cons.IH [of "fam\<lparr>fam_metrics := xs\<rparr>"] Cons.prems(1) show ?case by (simp add: step)
qed simp

lemma merge_family_receive:
  assumes "family_sound (n, mf)" and "families g n = None"
  shows "merge_family h (n, mf) g = fold (receive h) (fam_metrics mf) g"
proof -
  obtain m ms where ms: "fam_metrics mf = m # ms"
    using assms(1) by (cases "fam_metrics mf") (auto simp: family_sound_def)
  let ?g = "g\<lparr>families := (families g)(n \<mapsto> mf\<lparr>fam_metrics := []\<rparr>)\<rparr>"
  have empty: "mf\<lparr>fam_metrics := xs\<rparr> = \<lparr>fam_help = fam_help mf, fam_type = fam_type mf, fam_metrics = xs\<rparr>" for xs
    by simp
  have m: "metric_sound m" "metric_name m = n" "desc_help (metric_desc m) = fam_help mf"
    "metric_type m = fam_type mf"
    using assms(1) ms by (simp_all add: family_sound_def)
  have d: "desc_err (metric_desc m) = None" "fqName (metric_desc m) = n"
    using m(1,2) by (simp_all add: metric_sound_def metric_name_def)
  obtain e hs where c: "checkMetricConsistency h n (mf\<lparr>fam_metrics := []\<rparr>) m (metricHashes g) = (e, hs)"
    by (cases "checkMetricConsistency h n (mf\<lparr>fam_metrics := []\<rparr>) m (metricHashes g)")
  have "receive h m g = receive h m ?g"
    using assms(2) m(3,4) d c
    by (cases e) (simp_all add: receive_def processMetric_def Let_def empty)
  moreover have "fold (merge_metric h n) (fam_metrics mf) ?g = fold (receive h) (fam_metrics mf) ?g"
    using assms(1) by (intro merge_metrics_receive [where fam = "mf\<lparr>fam_metrics := []\<rparr>"])
      (simp_all add: family_sound_def)
  ultimately show ?thesis using assms(2) by (simp add: merge_family_def ms)
qed

definition flat :: "family list \<Rightarrow> metric list" where
  "flat mfs = concat (map (\<lambda>f. fam_metrics (snd f)) mfs)"

lemma merge_families_gather:
  assumes "list_all family_sound mfs" and "distinct (map fst mfs)"
    and "fst ` set mfs \<inter> metric_name ` set ms = {}"
  shows "fold (merge_family h) mfs (Gather h ms) = Gather h (ms @ flat mfs)"
  using assms
proof (induction mfs arbitrary: ms)
  case (Cons f mfs)
  obtain n mf where f: "f = (n, mf)" by (cases f)
  have "n \<notin> metric_name ` set ms" using Cons.prems(3) f by simp
  then have "families (Gather h ms) n = None" using gather_dom [of h ms] by (meson domIff subsetD)
  then have step: "merge_family h f (Gather h ms) = Gather h (ms @ fam_metrics mf)"
    using merge_family_receive [of n mf "Gather h ms" h] Cons.prems(1) f by (simp add: Gather_def)
  have "metric_name ` set (fam_metrics mf) \<subseteq> {n}"
    using Cons.prems(1) f by (auto simp: family_sound_def list_all_iff)
  moreover have "n \<notin> fst ` set mfs" using Cons.prems(2) f by simp
  moreover have "fst ` set mfs \<inter> metric_name ` set ms = {}" using Cons.prems(3) by auto
  ultimately have "fst ` set mfs \<inter> metric_name ` set (ms @ fam_metrics mf) = {}"
    unfolding set_append image_Un by blast
  then show ?case
    using Cons.IH [of "ms @ fam_metrics mf"] Cons.prems(1,2) by (simp add: step [unfolded f] flat_def f)
qed (simp add: flat_def)

section \<open>What one registry hands on\<close>

lemma mset_flat_filter:
  assumes "distinct (map fst mfs)" and "metric_name ` set xs \<subseteq> fst ` set mfs"
    and "\<forall>(n, mf) \<in> set mfs. mset (fam_metrics mf) = filter_mset (\<lambda>m. metric_name m = n) (mset xs)"
  shows "mset (flat mfs) = mset xs"
  using assms
proof (induction mfs arbitrary: xs)
  case (Cons f mfs)
  obtain n mf where f: "f = (n, mf)" by (cases f)
  let ?rest = "filter (\<lambda>m. metric_name m \<noteq> n) xs"
  have "mset (flat mfs) = mset ?rest"
  proof (rule Cons.IH)
    show "distinct (map fst mfs)" "metric_name ` set ?rest \<subseteq> fst ` set mfs"
      using Cons.prems(1,2) f by auto
    show "\<forall>(n', mf) \<in> set mfs. mset (fam_metrics mf) = filter_mset (\<lambda>m. metric_name m = n') (mset ?rest)"
    proof (clarify)
      fix n' mf'
      assume in_mfs: "(n', mf') \<in> set mfs"
      then have "n' \<noteq> n" using Cons.prems(1) f by force
      then have "filter_mset (\<lambda>m. metric_name m = n') (mset ?rest) = filter_mset (\<lambda>m. metric_name m = n') (mset xs)"
        by (auto simp: filter_filter_mset intro: filter_mset_cong)
      then show "mset (fam_metrics mf') = filter_mset (\<lambda>m. metric_name m = n') (mset ?rest)"
        using Cons.prems(3) in_mfs f by auto
    qed
  qed
  moreover have "mset (fam_metrics mf) = filter_mset (\<lambda>m. metric_name m = n) (mset xs)"
    using Cons.prems(3) f by simp
  moreover have "flat (f # mfs) = fam_metrics mf @ flat mfs" by (simp add: flat_def f)
  ultimately have "mset (flat (f # mfs)) =
      filter_mset (\<lambda>m. metric_name m = n) (mset xs) + filter_mset (\<lambda>m. metric_name m \<noteq> n) (mset xs)"
    by simp
  then show ?case by (simp only: multiset_partition [symmetric])
qed (simp add: flat_def)

lemma gathers_sound:
  assumes "list_all metric_sound xs" and "consistent xs" and "inj_on h (metric_key ` set xs)"
    and "distinct (map series xs)" and "gathers h xs r"
  shows "snd r = [] \<and> list_all family_sound (fst r) \<and> distinct (map fst (fst r)) \<and>
    fst ` set (fst r) = metric_name ` set xs \<and> mset (flat (fst r)) = mset xs"
proof -
  note g = Gather_all [OF assms(1-4)]
  obtain order mfs where r: "r = (mfs, [])" and order: "ranges_over order (families (Gather h xs))"
    and mfs: "NormalizeMetricFamilies order (families (Gather h xs)) mfs"
    using assms(5) g(1) by (auto elim: gathersE)
  have names: "map fst mfs = sort (remdups (map metric_name xs))"
    by (rule normalized_names [OF _ _ order mfs])
       (auto simp: g(2) filter_empty_conv split: list.splits dest: filter_eq_Cons_in)
  have set_names: "fst ` set mfs = metric_name ` set xs"
    using arg_cong [OF names, of set] by simp
  have fam: "mset (fam_metrics mf) = filter_mset (\<lambda>m. metric_name m = n) (mset xs) \<and> family_sound (n, mf)"
    if nf: "(n, mf) \<in> set mfs" for n mf
  proof -
    let ?named = "filter (\<lambda>m. metric_name m = n) xs"
    have "n \<in> metric_name ` set xs" using nf set_names by force
    then have "?named \<noteq> []" by (auto simp: filter_empty_conv)
    then obtain m0 rest where m0: "?named = m0 # rest" by (cases ?named) simp_all
    then have m0_in: "m0 \<in> set xs" "metric_name m0 = n" by (blast dest: filter_eq_Cons_in)+
    have fam: "the (families (Gather h xs) n) = \<lparr>fam_help = desc_help (metric_desc m0),
        fam_type = metric_type m0, fam_metrics = ?named\<rparr>"
      by (simp add: g(2) m0)
    have mf: "fam_help mf = desc_help (metric_desc m0)" "fam_type mf = metric_type m0"
      "mset (fam_metrics mf) = mset ?named"
      using mfs nf fam unfolding NormalizeMetricFamilies_def sorts_def list_all_iff by auto
    have set_mf: "set (fam_metrics mf) = set ?named" using mset_eq_setD [OF mf(3)] .
    have "fam_metrics mf \<noteq> []" using mf(3) m0 by auto
    moreover have "metric_sound m \<and> metric_name m = n \<and> desc_help (metric_desc m) = fam_help mf \<and>
        metric_type m = fam_type mf" if "m \<in> set (fam_metrics mf)" for m
      using that consistentD [OF assms(2) _ m0_in(1), of m] assms(1) m0_in(2) mf(1,2) set_mf
      by (auto simp: list_all_iff)
    ultimately show ?thesis using mf(3) by (simp add: family_sound_def list_all_iff)
  qed
  have distinct: "distinct (map fst mfs)" unfolding names by simp
  have "mset (flat mfs) = mset xs"
    using fam set_names by (intro mset_flat_filter distinct) auto
  then show ?thesis using fam set_names distinct by (auto simp: r list_all_iff)
qed

text \<open>So merging what two registries with different names gathered is gathering once.\<close>

lemma merge_two:
  assumes "list_all family_sound (fst r1)" and "distinct (map fst (fst r1))" and "snd r1 = []"
    and "list_all family_sound (fst r2)" and "distinct (map fst (fst r2))" and "snd r2 = []"
    and "fst ` set (fst r1) \<inter> fst ` set (fst r2) = {}"
  shows "merge_all h [r1, r2] = Gather h (flat (fst r1) @ flat (fst r2))"
proof -
  have init: "gather_init = Gather h []" by (simp add: Gather_def)
  have one: "fold (merge_family h) (fst r1) gather_init = Gather h (flat (fst r1))"
    unfolding init using merge_families_gather [OF assms(1,2), of "[]" h] by simp
  have "metric_name ` set (flat (fst r1)) \<subseteq> fst ` set (fst r1)"
    using assms(1) by (force simp: flat_def family_sound_def list_all_iff)
  then have "fst ` set (fst r2) \<inter> metric_name ` set (flat (fst r1)) = {}" using assms(7) by blast
  from merge_families_gather [OF assms(4,5) this]
  show ?thesis using assms(3,6) one by (simp add: merge_all_def merge_gathered_def)
qed

end
