(* ===== verification/Scrape_Response.thy ===== *)
theory Scrape_Response
  imports Exporter_Scrape Prom_Gatherers
begin

text \<open>
  What a request of the metrics is answered: the families of a scrape and of the exporter's own
  metrics in the order of their names, each with its metrics in the order of their label values, and
  of these the families the request names. \<open>exposition\<close> computes it from the samples alone; the
  lemmas show that the answer is that, whatever the interleaving of the goroutines, the iterations
  over Go maps and the choices of the unstable sorts.
\<close>

section \<open>The reference\<close>

definition exposition :: "(string \<Rightarrow> string) \<Rightarrow> sample list \<Rightarrow> wire_family list" where
  "exposition help ss =
     map (\<lambda>n.
       let fam = filter (\<lambda>s. fst s = n) ss in
       (n, help n, fst (snd (hd fam)),
        sort_key (labels_rank \<circ> fst) (map (snd \<circ> snd) fam)))
     (sort (remdups (map fst ss)))"

text \<open>Samples of one name whose label values agree have the same label names.\<close>

definition values_apart :: "sample list \<Rightarrow> bool" where
  "values_apart ss \<longleftrightarrow>
     (\<forall>s \<in> set ss. \<forall>t \<in> set ss.
        fst s = fst t \<longrightarrow> map snd (fst (snd (snd s))) = map snd (fst (snd (snd t))) \<longrightarrow>
        map fst (fst (snd (snd s))) = map fst (fst (snd (snd t))))"

text \<open>Samples of one name have the same type.\<close>

definition types_agree :: "sample list \<Rightarrow> bool" where
  "types_agree ss \<longleftrightarrow> (\<forall>s \<in> set ss. \<forall>t \<in> set ss. fst s = fst t \<longrightarrow> fst (snd s) = fst (snd t))"

section \<open>The reference does not depend on the order of the samples\<close>

lemma family_rank_inj:
  assumes "distinct (map sample_series ss)" and "values_apart ss"
  shows "inj_on (labels_rank \<circ> fst) (set (map (snd \<circ> snd) (filter (\<lambda>s. fst s = n) ss)))"
proof (rule inj_onI)
  fix x y
  assume "x \<in> set (map (snd \<circ> snd) (filter (\<lambda>s. fst s = n) ss))"
    and "y \<in> set (map (snd \<circ> snd) (filter (\<lambda>s. fst s = n) ss))"
    and rank: "(labels_rank \<circ> fst) x = (labels_rank \<circ> fst) y"
  then obtain s t where st: "s \<in> set ss" "t \<in> set ss" "fst s = fst t" "x = snd (snd s)" "y = snd (snd t)"
    by auto
  have "map snd (fst x) = map snd (fst y)" using rank by (simp add: labels_rank_eq_iff)
  moreover from this have "map fst (fst x) = map fst (fst y)"
    using assms(2) st unfolding values_apart_def by blast
  ultimately have "fst x = fst y" by (metis zip_map_fst_snd)
  then have "sample_series s = sample_series t" using st by (simp add: sample_series_def)
  then have "s = t" using assms(1) st(1,2) by (auto simp: distinct_map inj_on_def)
  then show "x = y" using st(4,5) by simp
qed

lemma exposition_perm:
  assumes "mset ss = mset ts" and "distinct (map sample_series ss)" and "values_apart ss"
    and "types_agree ss"
  shows "exposition help ss = exposition help ts"
proof -
  have sets: "set ss = set ts" using assms(1) by (rule mset_eq_setD)
  then have names: "sort (remdups (map fst ss)) = sort (remdups (map fst ts))"
    by (intro sort_remdups_cong) simp
  have "(let fam = filter (\<lambda>s. fst s = n) ss in
        (n, help n, fst (snd (hd fam)), sort_key (labels_rank \<circ> fst) (map (snd \<circ> snd) fam))) =
      (let fam = filter (\<lambda>s. fst s = n) ts in
        (n, help n, fst (snd (hd fam)), sort_key (labels_rank \<circ> fst) (map (snd \<circ> snd) fam)))"
    if "n \<in> set (sort (remdups (map fst ts)))" for n
  proof -
    let ?f = "filter (\<lambda>s. fst s = n) ss" and ?g = "filter (\<lambda>s. fst s = n) ts"
    have m: "mset ?f = mset ?g" using assms(1) by simp
    have "n \<in> fst ` set ts" using that by simp
    then obtain x where x: "x \<in> set ts" "fst x = n" by (rule imageE) simp
    then have "?f \<noteq> []" "?g \<noteq> []" using sets by (auto simp: filter_empty_conv)
    then have "hd ?f \<in> set ?f" "hd ?g \<in> set ?g" by - (rule hd_in_set, assumption)+
    then have "fst (snd (hd ?f)) = fst (snd (hd ?g))"
      using assms(4) sets unfolding types_agree_def by (metis (mono_tags, lifting) mem_Collect_eq set_filter)
    moreover have "sort_key (labels_rank \<circ> fst) (map (snd \<circ> snd) ?f) =
        sort_key (labels_rank \<circ> fst) (map (snd \<circ> snd) ?g)"
      using m family_rank_inj [OF assms(2,3)] by (intro sort_key_inj_key_eq) (simp_all only: mset_map mset_sort sorted_sort_key)
    ultimately show ?thesis by (simp only: Let_def)
  qed
  then show ?thesis unfolding exposition_def names by (intro map_cong) auto
qed

section \<open>The registry's result\<close>

lemma sample_fst [simp]: "fst (sample m) = metric_name m"
  by (simp add: sample_def metric_name_def)

text \<open>
  When every metric was kept, the result is the exposition of the samples received, with the help
  texts of the descriptors.
\<close>

lemma normalized_exposition:
  assumes fams: "\<And>n. families (Gather h ms) n =
      (case filter (\<lambda>m. metric_name m = n) ms of
         [] \<Rightarrow> None
       | m0 # _ \<Rightarrow> Some \<lparr>fam_help = desc_help (metric_desc m0), fam_type = metric_type m0,
                          fam_metrics = filter (\<lambda>m. metric_name m = n) ms\<rparr>)"
    and helps: "\<forall>m \<in> set ms. desc_help (metric_desc m) = help (metric_name m)"
    and apart: "distinct (map series ms)" "values_apart (map sample ms)"
    and order: "ranges_over order (families (Gather h ms))"
    and mfs: "NormalizeMetricFamilies order (families (Gather h ms)) mfs"
  shows "map wire mfs = exposition help (map sample ms)"
proof -
  let ?named = "\<lambda>n. filter (\<lambda>m. metric_name m = n) ms"
  have "families (Gather h ms) n = None \<longleftrightarrow> n \<notin> set (map metric_name ms)" for n
    by (auto simp: fams filter_empty_conv split: list.split dest: filter_eq_Cons_in)
  moreover have "fam_metrics fam \<noteq> []" if "families (Gather h ms) n = Some fam" for n fam
    using that by (auto simp: fams split: list.splits)
  ultimately have names: "map fst mfs = sort (remdups (map metric_name ms))"
    using normalized_names [OF _ _ order mfs] by blast
  have wire: "wire (n, mf) =
      (n, help n, fst (snd (hd (filter (\<lambda>s. fst s = n) (map sample ms)))),
       sort_key (labels_rank \<circ> fst) (map (snd \<circ> snd) (filter (\<lambda>s. fst s = n) (map sample ms))))"
    if nf: "(n, mf) \<in> set mfs" for n mf
  proof -
    have "n \<in> set (map fst mfs)" using nf by force
    then have "?named n \<noteq> []" unfolding names by (auto simp: filter_empty_conv)
    then obtain m0 rest where m0: "?named n = m0 # rest" by (cases "?named n") simp_all
    then have m0_in: "m0 \<in> set ms" "metric_name m0 = n" by (blast dest: filter_eq_Cons_in)+
    have fam: "the (families (Gather h ms) n) = \<lparr>fam_help = desc_help (metric_desc m0),
        fam_type = metric_type m0, fam_metrics = ?named n\<rparr>"
      by (simp add: fams m0)
    have mf: "fam_help mf = help n" "fam_type mf = metric_type m0"
      "sorts MetricSorter_Less (?named n) (fam_metrics mf)"
      using mfs nf fam helps m0_in unfolding NormalizeMetricFamilies_def list_all_iff by auto
    have samples: "filter (\<lambda>s. fst s = n) (map sample ms) = map sample (?named n)"
      by (simp add: filter_map comp_def)
    have val: "snd \<circ> snd \<circ> sample = (\<lambda>m. (metric_labels m, metric_value m))"
      by (simp add: fun_eq_iff sample_def)
    have "distinct (map sample_series (map sample ms))"
      using apart(1) by (simp add: series_sample [abs_def] comp_def)
    from family_rank_inj [OF this apart(2), of n]
    have "inj_on (labels_rank \<circ> fst) ((\<lambda>m. (metric_labels m, metric_value m)) ` set (?named n))"
      by (simp only: samples map_map val set_map)
    moreover have "inj_on (\<lambda>m. (metric_labels m, metric_value m)) (set (?named n))"
      using apart(1) by (auto simp: inj_on_def distinct_map series_def)
    ultimately have "inj_on ((labels_rank \<circ> fst) \<circ> (\<lambda>m. (metric_labels m, metric_value m))) (set (?named n))"
      by (rule comp_inj_on [rotated])
    then have "inj_on (labels_rank \<circ> metric_labels) (set (?named n))" by (simp add: comp_def)
    from metric_order.sorts_unique [OF mf(3) this]
    have "map (\<lambda>m. (metric_labels m, metric_value m)) (fam_metrics mf) =
        map (\<lambda>m. (metric_labels m, metric_value m))
          (sort_key ((labels_rank \<circ> fst) \<circ> (\<lambda>m. (metric_labels m, metric_value m))) (?named n))"
      by (simp add: comp_def)
    also have "\<dots> = sort_key (labels_rank \<circ> fst) (map (\<lambda>m. (metric_labels m, metric_value m)) (?named n))"
      by (rule map_sort_key)
    finally show ?thesis
      unfolding samples map_map val using mf(1,2) by (simp add: wire_def m0 sample_def)
  qed
  have "map wire mfs = map (\<lambda>n. (n, help n, fst (snd (hd (filter (\<lambda>s. fst s = n) (map sample ms)))),
       sort_key (labels_rank \<circ> fst) (map (snd \<circ> snd) (filter (\<lambda>s. fst s = n) (map sample ms))))) (map fst mfs)"
    unfolding map_map by (rule map_cong [OF refl]) (use wire in force)
  then show ?thesis by (simp add: exposition_def names Let_def comp_def)
qed

lemma wire_served: "map wire (served_families names mfs) =
    filter (\<lambda>f. names = [] \<or> fst f \<in> set names) (map wire mfs)"
  by (simp add: served_families_def filter_map comp_def wire_def)

section \<open>Metrics that pass every check\<close>

definition clean :: "metric list \<Rightarrow> bool" where
  "clean ms \<longleftrightarrow>
     list_all metric_sound ms \<and> consistent ms \<and> distinct (map series ms) \<and> values_apart (map sample ms)"

lemma types_agree_consistent: "consistent ms \<Longrightarrow> types_agree (map sample ms)"
  by (auto simp: types_agree_def sample_def metric_name_def dest: consistentD)

lemma values_apart_set: "set ss = set ts \<Longrightarrow> values_apart ss = values_apart ts"
  by (simp only: values_apart_def)

lemma consistent_set: "set ms = set ms' \<Longrightarrow> consistent ms = consistent ms'"
  by (simp only: consistent_def)

lemma clean_perm:
  assumes "mset ms = mset ms'" and "clean ms"
  shows "clean ms'"
proof -
  have same: "set ms = set ms'" using mset_eq_setD [OF assms(1)] .
  moreover have "set (map sample ms) = set (map sample ms')" using same by simp
  moreover have "distinct (map series ms')"
    using assms unfolding clean_def by (metis mset_map mset_eq_imp_distinct_iff)
  ultimately show ?thesis
    using assms(2) consistent_set [OF same] values_apart_set [of "map sample ms" "map sample ms'"]
    by (simp add: clean_def list_all_iff)
qed

lemma consistent_append:
  assumes "consistent xs" and "consistent ys" and "metric_name ` set xs \<inter> metric_name ` set ys = {}"
  shows "consistent (xs @ ys)"
  unfolding consistent_def set_append
proof (intro ballI impI)
  fix m m'
  assume "m \<in> set xs \<union> set ys" "m' \<in> set xs \<union> set ys" and name: "metric_name m = metric_name m'"
  then have "m \<in> set xs \<and> m' \<in> set xs \<or> m \<in> set ys \<and> m' \<in> set ys"
    using assms(3) by (metis UnE disjoint_iff image_eqI)
  then show "desc_help (metric_desc m) = desc_help (metric_desc m') \<and> metric_type m = metric_type m'"
    using consistentD [OF assms(1) _ _ name] consistentD [OF assms(2) _ _ name] by blast
qed

lemma values_apart_append:
  assumes "values_apart xs" and "values_apart ys" and "fst ` set xs \<inter> fst ` set ys = {}"
  shows "values_apart (xs @ ys)"
  unfolding values_apart_def set_append
proof (intro ballI impI)
  fix s t
  assume "s \<in> set xs \<union> set ys" "t \<in> set xs \<union> set ys" and st: "fst s = fst t"
    "map snd (fst (snd (snd s))) = map snd (fst (snd (snd t)))"
  then have "s \<in> set xs \<and> t \<in> set xs \<or> s \<in> set ys \<and> t \<in> set ys"
    using assms(3) by (metis UnE disjoint_iff image_eqI)
  then show "map fst (fst (snd (snd s))) = map fst (fst (snd (snd t)))"
    using assms(1,2) st unfolding values_apart_def by blast
qed

lemma clean_append:
  assumes "clean xs" and "clean ys" and "metric_name ` set xs \<inter> metric_name ` set ys = {}"
  shows "clean (xs @ ys)"
proof -
  have "series ` set xs \<inter> series ` set ys = {}" using assms(3) by (force simp: series_def)
  moreover have "fst ` set (map sample xs) \<inter> fst ` set (map sample ys) = {}"
    using assms(3) by (simp add: image_image)
  ultimately show ?thesis
    using assms consistent_append values_apart_append [of "map sample xs" "map sample ys"]
    by (simp add: clean_def)
qed

lemma clean_single: "metric_sound m \<Longrightarrow> clean [m]"
  by (simp add: clean_def consistent_def values_apart_def)

section \<open>A whole request\<close>

lemma merged:
  assumes "clean own" and "clean xs" and "metric_name ` set own \<inter> metric_name ` set xs = {}"
    and hash: "inj_on h (metric_key ` set (own @ xs))" and "gathers h own r1" and "gathers h xs r2"
  shows "merge_all h [r1, r2] = Gather h (flat (fst r1) @ flat (fst r2)) \<and>
    mset (flat (fst r1) @ flat (fst r2)) = mset (own @ xs)"
proof -
  have "inj_on h (metric_key ` set own)" "inj_on h (metric_key ` set xs)"
    by (rule inj_on_subset [OF hash], auto)+
  then have one: "snd r1 = [] \<and> list_all family_sound (fst r1) \<and> distinct (map fst (fst r1)) \<and>
      fst ` set (fst r1) = metric_name ` set own \<and> mset (flat (fst r1)) = mset own"
    and two: "snd r2 = [] \<and> list_all family_sound (fst r2) \<and> distinct (map fst (fst r2)) \<and>
      fst ` set (fst r2) = metric_name ` set xs \<and> mset (flat (fst r2)) = mset xs"
    using gathers_sound assms(1,2,5,6) unfolding clean_def by blast+
  then have "merge_all h [r1, r2] = Gather h (flat (fst r1) @ flat (fst r2))"
    using assms(3) by (intro merge_two) auto
  then show ?thesis using one two by simp
qed

text \<open>The answer when the metrics of both registries pass the checks and share no name.\<close>

lemma clean_answer:
  assumes "clean own" and "clean xs" and "metric_name ` set own \<inter> metric_name ` set xs = {}"
    and hash: "inj_on h (metric_key ` set (own @ xs))"
    and texts: "\<forall>m \<in> set (own @ xs). desc_help (metric_desc m) = help (metric_name m)"
    and "answers h own xs names ans"
  shows "\<exists>mfs. ans = Families mfs \<and> map wire mfs =
    filter (\<lambda>f. names = [] \<or> fst f \<in> set names) (exposition help (map sample (own @ xs)))"
proof -
  obtain r1 r2 r where r: "gathers h own r1" "gathers h xs r2" "Gatherers_Gather h [r1, r2] r"
    and ans: "ans = respond names r"
    using assms(6) by (rule answersE)
  let ?ms = "flat (fst r1) @ flat (fst r2)"
  have merged: "merge_all h [r1, r2] = Gather h ?ms" and perm: "mset (own @ xs) = mset ?ms"
    using merged [OF assms(1-3) hash r(1,2)] by simp_all
  have clean: "clean ?ms" using clean_perm [OF perm clean_append [OF assms(1-3)]] .
  have same: "set ?ms = set (own @ xs)" using mset_eq_setD [OF perm] by simp
  have all: "list_all metric_sound ?ms" "consistent ?ms" "distinct (map series ?ms)"
      "values_apart (map sample ?ms)" "inj_on h (metric_key ` set ?ms)"
    using clean hash unfolding clean_def same by blast+
  note g = Gather_all [OF all(1,2,5,3)]
  obtain order mfs where mfs: "r = (mfs, [])" "ranges_over order (families (Gather h ?ms))"
      "NormalizeMetricFamilies order (families (Gather h ?ms)) mfs"
    using r(3) g(1) unfolding merged [symmetric] by (auto elim: Gatherers_GatherE)
  have "\<forall>m \<in> set ?ms. desc_help (metric_desc m) = help (metric_name m)" using texts same by blast
  from normalized_exposition [OF g(2) this all(3,4) mfs(2,3)]
  have "map wire mfs = exposition help (map sample ?ms)" .
  also have "\<dots> = exposition help (map sample (own @ xs))"
  proof (rule exposition_perm)
    show "mset (map sample ?ms) = mset (map sample (own @ xs))" using perm by (simp only: mset_map)
    show "distinct (map sample_series (map sample ?ms))"
      using all(3) by (simp add: series_sample [abs_def] comp_def)
    show "values_apart (map sample ?ms)" "types_agree (map sample ?ms)"
      using all(4) types_agree_consistent [OF all(2)] by blast+
  qed
  finally show ?thesis by (simp add: ans respond_def mfs(1) wire_served)
qed

text \<open>
  The help texts: of the exporter's own metrics and of the build information those of their
  descriptors, of all others those of the table.
\<close>

definition response_help :: "metric list \<Rightarrow> string \<Rightarrow> string" where
  "response_help others n =
     (case find (\<lambda>m. metric_name m = n) others of
        Some m \<Rightarrow> desc_help (metric_desc m)
      | None \<Rightarrow> snd (the (map_of metric_table n)))"

text \<open>
  The metrics of the exporter's own registry come from vendored collectors: they pass the checks and
  have names of their own.
\<close>

definition own_metrics :: "metric list \<Rightarrow> bool" where
  "own_metrics own \<longleftrightarrow> clean own \<and>
     list_all (\<lambda>m. metric_name m \<noteq> build_info_name \<and> metric_name m \<notin> fst ` set metric_table) own"

lemma build_info_unlisted: "build_info_name \<notin> fst ` set metric_table"
  by code_simp

lemma listed_help: "metric_listed m \<Longrightarrow> map_of metric_table (metric_name m) = Some (metric_type m, desc_help (metric_desc m))"
  using metric_table_distinct by (auto simp: metric_listed_def intro: map_of_is_SomeI)

lemma listed_name: "metric_listed m \<Longrightarrow> metric_name m \<in> fst ` set metric_table"
  by (force simp: metric_listed_def)

lemma response_help_own:
  assumes "consistent others" and "m \<in> set others"
  shows "response_help others (metric_name m) = desc_help (metric_desc m)"
proof -
  obtain m' where m': "find (\<lambda>x. metric_name x = metric_name m) others = Some m'"
    using assms(2) by (cases "find (\<lambda>x. metric_name x = metric_name m) others") (auto simp: find_None_iff)
  then have "m' \<in> set others" "metric_name m' = metric_name m" by (auto simp: find_Some_iff)
  then show ?thesis using consistentD [OF assms(1) _ assms(2)] m' by (simp add: response_help_def)
qed

text \<open>A request for such metrics is always answered.\<close>

lemma answered:
  assumes "clean own" and "clean xs" and "metric_name ` set own \<inter> metric_name ` set xs = {}"
    and "inj_on h (metric_key ` set (own @ xs))"
  shows "\<exists>ans. answers h own xs names ans"
proof -
  have one: "\<exists>r. gathers h ms r" for ms using Gather_ranged normalized_exists gathers by metis
  obtain r1 r2 where r: "gathers h own r1" "gathers h xs r2" using one by blast
  have m: "merge_all h [r1, r2] = Gather h (flat (fst r1) @ flat (fst r2))"
    using merged [OF assms r] by simp
  obtain order where order: "ranges_over order (families (merge_all h [r1, r2]))"
    unfolding m using Gather_ranged by blast
  obtain mfs where "NormalizeMetricFamilies order (families (merge_all h [r1, r2])) mfs"
    using normalized_exists [OF order] by blast
  then show ?thesis using answers [OF r gatherers [OF order]] by blast
qed

text \<open>What a scrape sends passes the checks, whatever the order in which it is received.\<close>

lemma received_clean:
  assumes "collectors_built v cs" and "distinct (map fst cs)"
    and "\<forall>(n, c) \<in> set cs. collector_kind c = n \<and> descs_set c \<and> objects_distinct v a c"
    and "Collect v a ds cs (Collected cs' ms)"
    and apart: "values_apart (expected_samples v a ds cs)"
    and own: "own_metrics own" and b: "metric_sound b" "metric_name b = build_info_name"
    and received: "merges [[b], ms] xs"
  shows "mset (map sample ms) = mset (expected_samples v a ds cs) \<and>
    (\<forall>m \<in> set ms. metric_name m \<in> fst ` set metric_table \<and>
      desc_help (metric_desc m) = snd (the (map_of metric_table (metric_name m)))) \<and>
    clean own \<and> clean xs \<and> metric_name ` set own \<inter> metric_name ` set xs = {}"
proof -
  have listed: "list_all metric_listed ms"
    using Collect_listed [OF assms(4)] assms(3) by (auto simp: list_all_iff)
  then have table: "metric_name m \<in> fst ` set metric_table" if "m \<in> set ms" for m
    using that listed_name by (simp add: list_all_iff)
  have expected: "mset (map sample ms) = mset (expected_samples v a ds cs)"
    using Collect_complete [OF assms(1) Collected_ok(2) assms(4)] assms(1,4) by auto
  have "values_apart (map sample ms)"
    using apart values_apart_set [OF mset_eq_setD [OF expected]] by simp
  then have ms: "clean ms"
    using scrape_distinct [OF assms(1-4)] metrics_listed_consistent [OF listed] listed
    by (auto simp: clean_def list_all_iff metric_listed_def)
  have perm: "mset ([b] @ ms) = mset xs" using merges_mset [OF received] by simp
  have "build_info_name \<notin> metric_name ` set ms"
    using table build_info_unlisted by (metis imageE)
  then have "clean ([b] @ ms)" using clean_append [OF clean_single [OF b(1)] ms] b(2) by simp
  with perm have xs: "clean xs" by (rule clean_perm)
  have "set xs = insert b (set ms)" using mset_eq_setD [OF perm] by simp
  then have "metric_name ` set own \<inter> metric_name ` set xs = {}"
    using own b(2) table by (auto simp: own_metrics_def list_all_iff)
  moreover have "\<forall>m \<in> set ms. desc_help (metric_desc m) = snd (the (map_of metric_table (metric_name m)))"
    using listed by (simp add: listed_help list_all_iff)
  ultimately show ?thesis using expected table xs own by (simp add: own_metrics_def)
qed

lemma scrape_response:
  assumes scrape: "collectors_built v cs" "distinct (map fst cs)"
      "\<forall>(n, c) \<in> set cs. collector_kind c = n \<and> descs_set c \<and> objects_distinct v a c"
      "Collect v a ds cs (Collected cs' ms)" "values_apart (expected_samples v a ds cs)"
    and own: "own_metrics own" and b: "metric_sound b" "metric_name b = build_info_name"
    and received: "merges [[b], ms] xs" and hash: "inj_on h (metric_key ` set (own @ xs))"
    and ans: "answers h own xs names ans"
  shows "\<exists>mfs. ans = Families mfs \<and> map wire mfs =
    filter (\<lambda>f. names = [] \<or> fst f \<in> set names)
      (exposition (response_help (own @ [b])) (map sample (own @ [b]) @ expected_samples v a ds cs))"
proof -
  have expected: "mset (map sample ms) = mset (expected_samples v a ds cs)"
    and table: "\<And>m. m \<in> set ms \<Longrightarrow> metric_name m \<in> fst ` set metric_table"
    and texts: "\<And>m. m \<in> set ms \<Longrightarrow> desc_help (metric_desc m) = snd (the (map_of metric_table (metric_name m)))"
    and "clean own" and xs: "clean xs"
    and disjoint: "metric_name ` set own \<inter> metric_name ` set xs = {}"
    using received_clean [OF scrape own b received] by blast+
  have perm: "mset ([b] @ ms) = mset xs" using merges_mset [OF received] by simp
  have "clean (own @ [b])"
    using clean_append [OF \<open>clean own\<close> clean_single [OF b(1)]] own b(2)
    by (force simp: own_metrics_def list_all_iff)
  then have others: "consistent (own @ [b])" by (simp add: clean_def)
  have "response_help (own @ [b]) (metric_name m) = desc_help (metric_desc m)" if "m \<in> set ms" for m
  proof -
    have "metric_name b \<noteq> metric_name m" using table [OF that] b(2) build_info_unlisted by metis
    moreover have "\<forall>x \<in> set own. metric_name x \<noteq> metric_name m"
      using table [OF that] own unfolding own_metrics_def list_all_iff by metis
    ultimately have "find (\<lambda>x. metric_name x = metric_name m) (own @ [b]) = None"
      by (auto simp: find_None_iff)
    then show ?thesis using texts [OF that] by (simp add: response_help_def)
  qed
  moreover have set_xs: "set xs = insert b (set ms)" using mset_eq_setD [OF perm] by simp
  ultimately have "\<forall>m \<in> set (own @ xs). desc_help (metric_desc m) = response_help (own @ [b]) (metric_name m)"
    using response_help_own [OF others] unfolding set_append set_xs by auto
  from clean_answer [OF \<open>clean own\<close> xs disjoint hash this ans]
  obtain mfs where mfs: "ans = Families mfs" "map wire mfs = filter (\<lambda>f. names = [] \<or> fst f \<in> set names)
      (exposition (response_help (own @ [b])) (map sample (own @ xs)))"
    by blast
  have all: "clean (own @ xs)" using clean_append [OF \<open>clean own\<close> xs disjoint] .
  have "exposition (response_help (own @ [b])) (map sample (own @ xs)) =
      exposition (response_help (own @ [b])) (map sample (own @ [b]) @ expected_samples v a ds cs)"
  proof (rule exposition_perm)
    have "mset (map sample xs) = mset (map sample ([b] @ ms))" using perm by (simp only: mset_map)
    then show "mset (map sample (own @ xs)) = mset (map sample (own @ [b]) @ expected_samples v a ds cs)"
      using expected by simp
    show "distinct (map sample_series (map sample (own @ xs)))"
      using all by (simp add: clean_def series_sample [abs_def] comp_def)
    show "values_apart (map sample (own @ xs))" "types_agree (map sample (own @ xs))"
      using all types_agree_consistent by (simp_all only: clean_def)
  qed
  with mfs show ?thesis by simp
qed

section \<open>When the label values tell samples apart\<close>

text \<open>
  With the options off that copy labels of objects, the names of the labels depend on the name of
  the metric alone, so \<open>values_apart\<close> holds.
\<close>

definition plain_labels :: "label_vars \<Rightarrow> bool" where
  "plain_labels v \<longleftrightarrow> \<not> storeLabels v \<and> list_all (\<lambda>l. l = []) (whitelistedLabels v)"

lemma plain_kept:
  assumes "plain_labels v" and "extras_ok v d ls"
  shows "kept v d ls = []"
proof (rule ccontr)
  assume "kept v d ls \<noteq> []"
  then obtain l x where l: "(l, x) \<in> set (kept v d ls)" by (cases "kept v d ls") auto
  then have "l = []"
    using assms(1) by (auto simp: plain_labels_def kept_def keeps_label_def whitelistContains_def list_all_iff)
  then show False
    using l assms(2) by (auto simp: extras_ok_def list_all_iff checkLabelName_sanitize)
qed

lemma plain_full_labels: "\<lbrakk>plain_labels v; extras_ok v d ls\<rbrakk> \<Longrightarrow> full_labels v d ls = d"
  "\<lbrakk>plain_labels v; extras_ok v d ls\<rbrakk> \<Longrightarrow> full_values v d vals ls = vals"
  by (simp_all add: full_labels_def full_values_def getExtraLabelsAndValues_eq plain_kept)

lemma names_label_pairs: "length vs = length ls \<Longrightarrow> map fst (label_pairs ls vs) = sort ls"
  using map_sort_key [of fst "\<lambda>x. x" "zip ls vs"] by (simp add: label_pairs_def comp_def)

definition plain_names :: "label_vars \<Rightarrow> string \<Rightarrow> string list" where
  "plain_names v n =
     (if take 10 n = ''podman_con''
      then sort (if enhanceAllMetrics v \<or> n = ''podman_container_info'' then containerDefaultLabels
                 else [''id'', ''pod_id'', ''pod_name''])
      else if take 10 n = ''podman_ima''
      then sort (if enhanceAllMetrics v \<or> n = ''podman_image_info'' then imageDescDefaultLabels
                 else imageDefaultLabels)
      else if take 10 n = ''podman_pod''
      then sort (if enhanceAllMetrics v \<or> n = ''podman_pod_info'' then podDescDefaultLabels
                 else podDefaultLabels)
      else if take 10 n = ''podman_net'' then [''driver'', ''id'', ''interface'', ''labels'', ''name'']
      else if take 10 n = ''podman_vol''
      then (if enhanceAllMetrics v \<or> n = ''podman_volume_info'' then [''driver'', ''mount_point'', ''name'']
            else [''name''])
      else if take 10 n = ''podman_sys'' then [''version'']
      else if take 10 n = ''podman_dis'' then []
      else [''collector''])"

definition names_plain :: "label_vars \<Rightarrow> sample list \<Rightarrow> bool" where
  "names_plain v ss \<longleftrightarrow> list_all (\<lambda>s. map fst (fst (snd (snd s))) = plain_names v (fst s)) ss"

lemma names_plain_append [simp]: "names_plain v (xs @ ys) \<longleftrightarrow> names_plain v xs \<and> names_plain v ys"
  by (simp add: names_plain_def)

lemma names_plain_concat: "names_plain v (concat xss) \<longleftrightarrow> list_all (names_plain v) xss"
  by (induction xss) (simp_all add: names_plain_def)

lemma names_plain_apart: "names_plain v ss \<Longrightarrow> values_apart ss"
  by (simp add: names_plain_def values_apart_def list_all_iff)

lemma plain_container:
  assumes "plain_labels v" and "container_ok v r"
  shows "names_plain v (container_samples v st r)"
proof -
  have "extras_ok v containerDefaultLabels (cnt_Labels r)" using assms(2) by (simp add: container_ok_def)
  moreover have "length (container_label_values r) = length containerDefaultLabels"
    by (rule container_labels.default_arity)
  ultimately show ?thesis
    using assms(1)
    by (cases "getContainerStat (cnt_ID r) st")
       (simp_all add: container_samples_def Let_def names_plain_def container_state_samples_def
         container_usage_samples_def plain_full_labels names_label_pairs plain_names_def
         container_basic_values_def del: sort_key_simps)
qed

lemma plain_image:
  assumes "plain_labels v" and "image_ok v r"
  shows "names_plain v (image_samples v r)"
proof -
  have "extras_ok v imageDescDefaultLabels (img_Labels r)" using assms(2) by (simp add: image_ok_def)
  moreover have "length (image_label_values r) = length imageDescDefaultLabels" "length imageDefaultLabels = 3"
    by (rule image_labels.default_arity) (simp add: imageDefaultLabels_def)
  ultimately show ?thesis
    using assms(1)
    by (simp add: image_samples_def Let_def names_plain_def plain_full_labels names_label_pairs
        plain_names_def del: sort_key_simps)
qed

lemma plain_pod:
  assumes "plain_labels v" and "pod_ok v r"
  shows "names_plain v (pod_samples v r)"
proof -
  have "extras_ok v podDescDefaultLabels (pod_Labels r)" using assms(2) by (simp add: pod_ok_def)
  moreover have "length (pod_label_values r) = length podDescDefaultLabels" "length podDefaultLabels = 1"
    by (rule pod_labels.default_arity) (simp add: podDefaultLabels_def)
  ultimately show ?thesis
    using assms(1)
    by (simp add: pod_samples_def Let_def names_plain_def plain_full_labels names_label_pairs
        plain_names_def del: sort_key_simps)
qed

lemma plain_static:
  "names_plain v (network_samples n)" "names_plain v (volume_samples v vol)"
  "names_plain v (system_samples info)" "names_plain v (disk_usage_samples du)"
  "names_plain v (scrape_samples name d err)"
  by (simp_all add: names_plain_def network_samples_def volume_samples_def system_samples_def
      disk_usage_samples_def scrape_samples_def plain_names_def Let_def)

lemma plain_collector:
  assumes "plain_labels v" and "collector_ok v a c"
  shows "names_plain v (collector_samples v a c)"
  using assms
  by (cases c)
     (auto simp: rows_or_def names_plain_concat list_all_iff plain_static plain_container plain_image
       plain_pod names_plain_def [of v "[]"] split: outcome.splits sum.splits)

lemma plain_expected:
  assumes "plain_labels v" and "list_all (\<lambda>(_, c). collector_ok v a c) cs"
  shows "values_apart (expected_samples v a ds cs)"
proof (rule names_plain_apart)
  show "names_plain v (expected_samples v a ds cs)"
    unfolding expected_samples_def names_plain_concat list_all_iff
    using assms plain_collector plain_static(5)
    by (auto simp: list_all_iff dest!: set_zip_rightD)
qed

end
