(* ===== verification/Scrape_Race.thy ===== *)
theory Scrape_Race
  imports Coll_Registry
begin

text \<open>
  Overlapping scrapes. \<open>initiatedCollectors\<close> makes all handlers share one struct per collector, and
  \<open>Update\<close> writes the descriptor fields of that struct, so two scrapes of one collector interleave
  on it: their instructions execute in some merge on the shared struct. The locale
  \<open>shared_collector\<close> states what the container, image and pod collectors have in common, and shows
  exactly when an overlap can crash and when it leaves every scrape as it would be alone.
\<close>

section \<open>Instruction lists that cannot crash\<close>

text \<open>Each send finds its field in \<open>S\<close> or set by an earlier instruction of the same list.\<close>

fun guarded :: "'f set \<Rightarrow> 'f instr list \<Rightarrow> bool" where
  "guarded S [] \<longleftrightarrow> True"
| "guarded S (SetDesc f d # is) \<longleftrightarrow> guarded (insert f S) is"
| "guarded S (Send f v ls # is) \<longleftrightarrow> f \<in> S \<and> guarded S is"

text \<open>
  Assignments give a field only descriptors \<open>Q\<close> allows for it, and a send fits all of these.
\<close>

fun fits :: "('f \<Rightarrow> desc \<Rightarrow> bool) \<Rightarrow> 'f instr \<Rightarrow> bool" where
  "fits Q (SetDesc f d) \<longleftrightarrow> Q f d"
| "fits Q (Send f v ls) \<longleftrightarrow> (\<forall>d. Q f d \<longrightarrow> send_ok d ls)"

fun instr_metrics :: "('f \<Rightarrow> desc) \<Rightarrow> ('f \<Rightarrow> value_type) \<Rightarrow> 'f instr \<Rightarrow> metric list" where
  "instr_metrics D ty (SetDesc f d) = []"
| "instr_metrics D ty (Send f v ls) = [const_metric (D f) (ty f) v ls]"

lemma guarded_mono: "guarded S is \<Longrightarrow> S \<subseteq> T \<Longrightarrow> guarded T is"
proof (induction S "is" arbitrary: T rule: guarded.induct)
  case (2 S f d "is")
  from "2.prems"(2) have "insert f S \<subseteq> insert f T" by blast
  then show ?case using "2.IH" [of "insert f T"] "2.prems"(1) by simp
qed auto

lemma guarded_append: "guarded S xs \<Longrightarrow> guarded S ys \<Longrightarrow> guarded S (xs @ ys)"
  by (induction S xs rule: guarded.induct) (auto intro: guarded_mono)

lemma guarded_merges:
  "merges xss ys \<Longrightarrow> list_all (guarded S) xss \<Longrightarrow> guarded S ys"
proof (induction arbitrary: S rule: merges.induct)
  case (merges_step xss1 xs xss2 ys x)
  show ?case
  proof (cases x)
    case (SetDesc f d)
    have "list_all (guarded (insert f S)) (xss1 @ xs # xss2)"
      using merges_step.prems SetDesc by (auto simp: list_all_iff intro: guarded_mono)
    then show ?thesis using merges_step.IH SetDesc by simp
  next
    case (Send f v ls)
    then show ?thesis using merges_step.IH [of S] merges_step.prems by simp
  qed
qed simp

lemma run_fits:
  assumes "guarded S is" and "list_all (fits Q) is"
    and "\<And>f. f \<in> S \<Longrightarrow> \<exists>d. td_desc (c f) = Some d \<and> Q f d"
  shows "snd (snd (run_instrs c is)) = None"
  using assms
proof (induction S "is" arbitrary: c rule: guarded.induct)
  case (2 S f d "is")
  have "snd (snd (run_instrs (set_desc c f d) is)) = None"
    using 2 by (intro "2.IH") auto
  then show ?case by (simp split: prod.splits)
next
  case (3 S f v ls "is")
  have "snd (snd (run_instrs c is)) = None" using "3.prems" by (intro "3.IH") simp_all
  moreover obtain d where "td_desc (c f) = Some d" "Q f d" using "3.prems" by auto
  ultimately show ?case
    using "3.prems"(2)
    by (auto simp: typedDesc_mustNewConstMetric_def MustNewConstMetric_ok split: prod.splits)
qed simp

text \<open>When a field has only one descriptor, the metrics sent are known.\<close>

lemma run_uniform:
  assumes "guarded S is" and "list_all (fits (\<lambda>f d. d = D f)) is"
    and "\<And>f. f \<in> S \<Longrightarrow> td_desc (c f) = Some (D f)"
  shows "\<exists>c'. run_instrs c is =
    (c', concat (map (instr_metrics D (\<lambda>f. td_type (c f))) is), None)"
  using assms
proof (induction S "is" arbitrary: c rule: guarded.induct)
  case (2 S f d "is")
  have "\<exists>c'. run_instrs (set_desc c f d) is =
      (c', concat (map (instr_metrics D (\<lambda>g. td_type (set_desc c f d g))) is), None)"
    using 2 by (intro "2.IH") auto
  then show ?case by auto
next
  case (3 S f v ls "is")
  have "\<exists>c'. run_instrs c is = (c', concat (map (instr_metrics D (\<lambda>f. td_type (c f))) is), None)"
    using "3.prems" by (intro "3.IH") simp_all
  then obtain c' where "run_instrs c is = (c', concat (map (instr_metrics D (\<lambda>f. td_type (c f))) is), None)"
    by blast
  with "3.prems" show ?case
    by (simp add: typedDesc_mustNewConstMetric_def MustNewConstMetric_ok)
qed simp

section \<open>Merges of instruction lists\<close>

lemma merges_set: "merges xss ys \<Longrightarrow> set ys = set (concat xss)"
  using merges_mset [of xss ys] by (metis set_mset_mset)

lemma merges_concat_mset:
  assumes "merges iss is"
  shows "mset (concat (map g is)) = mset (concat (map g (concat iss)))"
  using merges_mset [OF assms] by (metis mset_concat mset_map sum_mset_sum_list)

lemma merges_one: "merges [xs, []] zs \<Longrightarrow> zs = xs" "merges [[], xs] zs \<Longrightarrow> zs = xs"
proof -
  have "merges xss zs \<Longrightarrow> \<forall>xs. (xss = [xs, []] \<longrightarrow> zs = xs) \<and> (xss = [[], xs] \<longrightarrow> zs = xs)" for xss
  proof (induction rule: merges.induct)
    case (merges_step xss1 xs xss2 ys x)
    then show ?case by (cases xss1) (auto simp: Cons_eq_append_conv append_eq_Cons_conv)
  qed auto
  then show "merges [xs, []] zs \<Longrightarrow> zs = xs" "merges [[], xs] zs \<Longrightarrow> zs = xs" by blast+
qed

text \<open>Two lists cut in two and interleaved once.\<close>

lemma merges_prefix:
  "merges [xs, ys] zs \<Longrightarrow> merges [as @ xs, ys] (as @ zs)"
  "merges [xs, ys] zs \<Longrightarrow> merges [xs, as @ ys] (as @ zs)"
proof -
  show "merges [xs, ys] zs \<Longrightarrow> merges [as @ xs, ys] (as @ zs)"
    by (induction as) (auto intro: merges_step [of "[]", simplified])
  show "merges [xs, ys] zs \<Longrightarrow> merges [xs, as @ ys] (as @ zs)"
    by (induction as) (auto intro: merges_step [of "[xs]" _ "[]", simplified])
qed

lemma merges_cut: "merges [xs1 @ xs2, ys1 @ ys2] (xs1 @ ys1 @ xs2 @ ys2)"
  using merges_concat [of "[xs2, ys2]"] by (auto intro!: merges_prefix)

section \<open>Programs of well-formed blocks\<close>

lemma guarded_sets:
  "guarded (S \<union> fst ` set ds) is \<Longrightarrow> guarded S (map (\<lambda>(f, d). SetDesc f d) ds @ is)"
proof (induction ds arbitrary: S)
  case (Cons x ds)
  obtain f d where x: "x = (f, d)" by (cases x)
  have "guarded (insert f S) (map (\<lambda>(f, d). SetDesc f d) ds @ is)"
    using Cons.prems x by (intro Cons.IH) simp
  with x show ?case by simp
qed simp

lemma guarded_sends: "fst ` set ss \<subseteq> S \<Longrightarrow> guarded S (map (\<lambda>(f, v, ls). Send f v ls) ss)"
proof (induction ss)
  case (Cons x ss)
  obtain f v ls where "x = (f, v, ls)" by (cases x)
  with Cons show ?case by simp
qed simp

lemma guarded_block: "block_wf ds ss \<Longrightarrow> guarded S (block ds ss)"
  unfolding block_def block_wf_def by (intro guarded_sets guarded_sends) blast

lemma guarded_program: "list_all blk_wf bs \<Longrightarrow> guarded S (program bs)"
proof (induction bs)
  case (Cons b bs)
  obtain ds ss where "b = (ds, ss)" by (cases b)
  with Cons show ?case by (simp add: guarded_append guarded_block)
qed simp

text \<open>A send of an acceptable block fits the descriptor the block assigns to its field.\<close>

lemma block_send_ok:
  assumes "block_wf ds ss" and "block_ok ds ss" and "(f, v, ls) \<in> set ss"
  shows "\<exists>d. (f, d) \<in> set ds \<and> send_ok d ls"
proof -
  have "f \<in> fst ` set ds" using assms(1,3) by (force simp: block_wf_def)
  then obtain d where "map_of ds f = Some d" by (metis map_of_eq_None_iff not_None_eq)
  moreover from assms(2,3)
  have "case resolve ds (f, v, ls) of None \<Rightarrow> False | Some (d, ls) \<Rightarrow> send_ok d ls"
    by (auto simp: block_ok_def list_all_iff)
  ultimately show ?thesis by (auto simp: resolve_def dest: map_of_SomeD)
qed

lemma program_instr:
  "i \<in> set (program bs) \<Longrightarrow> \<exists>(ds, ss) \<in> set bs.
     (\<exists>f d. i = SetDesc f d \<and> (f, d) \<in> set ds) \<or> (\<exists>f v ls. i = Send f v ls \<and> (f, v, ls) \<in> set ss)"
  by (fastforce simp: program_def block_def)

section \<open>Collectors with labels of their own\<close>

text \<open>
  The container, image and pod collectors: the fields of table \<open>t1\<close> (the info metric) get the full
  labels of the object, those of \<open>t2\<close> the full labels when metrics are enhanced and the short ones
  otherwise, and the first metric sent for an object is its info metric.
\<close>

locale shared_collector = sampled_collector types blocks row_ok samples
  for types :: "'f \<Rightarrow> value_type"
    and blocks :: "'r \<Rightarrow> 'f blk list"
    and row_ok :: "'r \<Rightarrow> bool"
    and samples :: "'r \<Rightarrow> sample list" +
  fixes sub :: string
    and t1 t2 :: "('f \<times> string \<times> string) list"
    and enhance :: bool
    and short :: "string list"
    and labels :: "'r \<Rightarrow> string list"
    and info :: 'f
  assumes tables: "table_ok sub (t1 @ t2)"
    and short_ok: "label_names_ok short"
    and labels_ok: "row_ok r \<Longrightarrow> label_names_ok (labels r)"
    and assigned: "b \<in> set (blocks r) \<Longrightarrow> set (fst b) \<subseteq>
      set (descs sub t1 (labels r) @ descs sub t2 (if enhance then labels r else short))"
    and info_field: "info \<in> fst ` set t1"
    and info_first: "\<exists>ds vals ss bs. blocks r = (ds, (info, 1, vals) # ss) # bs"
begin

definition field_descs :: "string list \<Rightarrow> ('f \<times> desc) list" where
  "field_descs L = descs sub t1 L @ descs sub t2 (if enhance then L else short)"

definition desc_of :: "string list \<Rightarrow> 'f \<Rightarrow> desc" where
  "desc_of L f = the (map_of (field_descs L) f)"

definition prog :: "'r list \<Rightarrow> 'f instr list" where
  "prog rs = program (concat (map blocks rs))"

lemma field_descs_unique: "(f, d) \<in> set (field_descs L) \<Longrightarrow> d = desc_of L f"
proof -
  have "distinct (map fst (field_descs L))"
    using tables by (simp add: field_descs_def table_ok_def)
  then show "(f, d) \<in> set (field_descs L) \<Longrightarrow> ?thesis"
    by (simp add: desc_of_def)
qed

lemma assigned_desc:
  "(ds, ss) \<in> set (blocks r) \<Longrightarrow> (f, d) \<in> set ds \<Longrightarrow> d = desc_of (labels r) f \<and> f \<in> fst ` set (t1 @ t2)"
proof -
  assume "(ds, ss) \<in> set (blocks r)" "(f, d) \<in> set ds"
  then have fd: "(f, d) \<in> set (field_descs (labels r))"
    using assigned [of "(ds, ss)" r] by (auto simp: field_descs_def)
  then have "f \<in> fst ` set (field_descs (labels r))" by force
  then have "f \<in> fst ` set (t1 @ t2)"
    unfolding field_descs_def set_append image_Un fst_set_descs .
  with field_descs_unique [OF fd] show ?thesis by blast
qed

text \<open>The descriptor of a field differs between objects in its labels only.\<close>

lemma desc_of_NewDesc:
  assumes "f \<in> fst ` set (t1 @ t2)"
  shows "\<exists>n h. IsValidMetricName n \<and>
    (\<forall>L. desc_of L f = NewDesc n h (if enhance \<or> f \<in> fst ` set t1 then L else short))"
proof -
  obtain n h where nh: "map_of (t1 @ t2) f = Some (n, h)"
    using assms by (metis map_of_eq_None_iff not_None_eq surj_pair)
  then have "IsValidMetricName (BuildFQName namespace sub n)"
    using tables map_of_SomeD [OF nh] unfolding table_ok_def list_all_iff by blast
  moreover have "desc_of L f = NewDesc (BuildFQName namespace sub n) h
      (if enhance \<or> f \<in> fst ` set t1 then L else short)" for L
  proof (cases "f \<in> fst ` set t1")
    case True
    then have "map_of t1 f = Some (n, h)" using nh map_of_parts(1) [of f t1 t2] by metis
    moreover have "f \<in> fst ` set (descs sub t1 L)" using True unfolding fst_set_descs .
    then have "map_of (field_descs L) f = map_of (descs sub t1 L) f"
      unfolding field_descs_def by (rule map_of_parts(1))
    ultimately show ?thesis using True by (simp add: desc_of_def map_of_descs)
  next
    case False
    then have "map_of t2 f = Some (n, h)" using nh map_of_parts(2) [of f t1 t2] by metis
    moreover have "f \<notin> fst ` set (descs sub t1 L)" using False unfolding fst_set_descs .
    then have "map_of (field_descs L) f =
        map_of (descs sub t2 (if enhance then L else short)) f"
      unfolding field_descs_def by (rule map_of_parts(2))
    ultimately show ?thesis using False by (simp add: desc_of_def map_of_descs)
  qed
  ultimately show ?thesis by blast
qed

lemma send_ok_exchange:
  assumes "f \<in> fst ` set (t1 @ t2)" and "row_ok r" and "row_ok r'"
    and "length (labels r) = length (labels r')" and "send_ok (desc_of (labels r) f) ls"
  shows "send_ok (desc_of (labels r') f) ls"
proof -
  obtain n h where "\<forall>L. desc_of L f = NewDesc n h (if enhance \<or> f \<in> fst ` set t1 then L else short)"
    using desc_of_NewDesc [OF assms(1)] by blast
  then show ?thesis
    using assms(4,5) labels_ok [OF assms(3)] short_ok by (simp add: send_ok_NewDesc)
qed

lemma prog_guarded: "guarded S (prog rs)"
  unfolding prog_def by (rule guarded_program) (rule all_wf)

text \<open>The instructions of acceptable objects fit any choice of descriptors their sends accept.\<close>

lemma prog_fits:
  assumes "list_all row_ok rs"
    and "\<And>r f. r \<in> set rs \<Longrightarrow> f \<in> fst ` set (t1 @ t2) \<Longrightarrow> Q f (desc_of (labels r) f)"
    and "\<And>r f d ls. r \<in> set rs \<Longrightarrow> f \<in> fst ` set (t1 @ t2) \<Longrightarrow> Q f d \<Longrightarrow>
      send_ok (desc_of (labels r) f) ls \<Longrightarrow> send_ok d ls"
  shows "list_all (fits Q) (prog rs)"
  unfolding list_all_iff
proof
  fix i assume "i \<in> set (prog rs)"
  then obtain ds ss r where r: "r \<in> set rs" "(ds, ss) \<in> set (blocks r)"
    and i: "(\<exists>f d. i = SetDesc f d \<and> (f, d) \<in> set ds) \<or>
      (\<exists>f v ls. i = Send f v ls \<and> (f, v, ls) \<in> set ss)"
    unfolding prog_def by (fastforce dest: program_instr)
  have "row_ok r" using assms(1) r(1) by (simp add: list_all_iff)
  then have wf: "block_wf ds ss" and ok: "block_ok ds ss"
    using blocks_wf [of r] blocks_ok [of r] r(2) by (auto simp: list_all_iff blk_wf_def blk_ok_def)
  from i show "fits Q i"
  proof (elim disjE exE conjE)
    fix f d assume "i = SetDesc f d" "(f, d) \<in> set ds"
    then show ?thesis using assigned_desc [OF r(2)] assms(2) [OF r(1)] by auto
  next
    fix f v ls assume i: "i = Send f v ls" "(f, v, ls) \<in> set ss"
    then obtain d where "(f, d) \<in> set ds" "send_ok d ls" using block_send_ok [OF wf ok] by blast
    then have "f \<in> fst ` set (t1 @ t2)" "send_ok (desc_of (labels r) f) ls"
      using assigned_desc [OF r(2)] by auto
    then show ?thesis using assms(3) [OF r(1)] i(1) by auto
  qed
qed

text \<open>
  Any number of overlapping scrapes whose objects have the same labels: together they send what
  they send alone.
\<close>

lemma prog_alone:
  fixes c :: "'f collector"
  assumes "list_all row_ok rs" and "\<forall>r \<in> set rs. labels r = L" and "\<And>f. td_type (c f) = types f"
  shows "map sample (concat (map (instr_metrics (desc_of L) types) (prog rs))) =
    concat (map samples rs)"
proof -
  have "list_all (fits (\<lambda>f d. d = desc_of L f)) (prog rs)"
    using assms(1,2) by (intro prog_fits) auto
  then obtain c' where "run_instrs c (prog rs) =
      (c', concat (map (instr_metrics (desc_of L) (\<lambda>f. td_type (c f))) (prog rs)), None)"
    using run_uniform [of "{}" "prog rs" "desc_of L" c] prog_guarded by auto
  then show ?thesis
    using run_rows_samples [OF assms(1), of c] assms(3) by (auto simp: run_update_def prog_def)
qed

lemma overlap_exact:
  fixes c :: "'f collector"
  assumes ok: "list_all (list_all row_ok) scrapes"
    and same: "\<forall>r \<in> set (concat scrapes). labels r = L"
    and zs: "merges (map prog scrapes) zs"
    and types: "\<And>f. td_type (c f) = types f"
  shows "\<exists>c' ms. run_instrs c zs = (c', ms, None) \<and>
    mset (map sample ms) = mset (concat (map samples (concat scrapes)))"
proof -
  let ?sent = "instr_metrics (desc_of L) types"
  have one: "list_all (fits (\<lambda>f d. d = desc_of L f)) (prog rs)" if "rs \<in> set scrapes" for rs
    using ok same that by (intro prog_fits) (auto simp: list_all_iff)
  then have "list_all (fits (\<lambda>f d. d = desc_of L f)) zs"
    using merges_set [OF zs] by (auto simp: list_all_iff)
  moreover have "guarded {} zs"
    using prog_guarded by (intro guarded_merges [OF zs]) (simp add: list_all_iff)
  ultimately obtain c' where run: "run_instrs c zs = (c', concat (map ?sent zs), None)"
    using run_uniform [of "{}" zs "desc_of L" c] types by auto
  have "map sample (concat (map ?sent (concat (map prog scrapes)))) =
      concat (map samples (concat scrapes))"
    using ok same
  proof (induction scrapes)
    case (Cons rs scrapes)
    then show ?case using prog_alone [of rs L c] types by simp
  qed simp
  moreover have "mset (map sample (concat (map ?sent zs))) =
      mset (map sample (concat (map ?sent (concat (map prog scrapes)))))"
    using merges_concat_mset [OF zs, of ?sent] by simp
  ultimately show ?thesis using run by metis
qed

section \<open>When two overlapping scrapes can crash\<close>

lemma run_prefix:
  "run_instrs c xs = (c', ms, None) \<Longrightarrow>
     snd (snd (run_instrs c (xs @ ys))) = snd (snd (run_instrs c' ys))"
  by (cases "run_instrs c' ys") (simp add: run_instrs_append)

lemma run_prog_prefix:
  fixes c :: "'f collector"
  assumes "list_all row_ok rs"
  shows "\<exists>c'. snd (snd (run_instrs c (prog rs @ ys))) = snd (snd (run_instrs c' ys))"
proof -
  obtain c' ms where "run_instrs c (prog rs) = (c', ms, None)"
    using run_program_ok [OF all_wf, of rs c] all_ok [of rs] assms by (auto simp: prog_def)
  then show ?thesis using run_prefix by blast
qed

text \<open>The program of a list, cut before the info metric of one of its objects.\<close>

lemma prog_cut:
  assumes "r \<in> set rs" and "list_all row_ok rs"
  shows "\<exists>as ds vals rest. prog rs = (prog as @ map (\<lambda>(f, d). SetDesc f d) ds) @ Send info 1 vals # rest \<and>
    list_all row_ok as \<and> length vals = length (labels r) \<and>
    (\<forall>c. td_desc (set_descs c ds info) = Some (desc_of (labels r) info))"
proof -
  obtain as bs where rs: "rs = as @ r # bs" using assms(1) by (meson split_list)
  obtain ds vals ss bl where bl: "blocks r = (ds, (info, 1, vals) # ss) # bl"
    using info_first by blast
  have ok: "row_ok r" "list_all row_ok as" using assms(2) rs by simp_all
  then have wf: "block_wf ds ((info, 1, vals) # ss)" and bok: "block_ok ds ((info, 1, vals) # ss)"
    using blocks_wf [of r] blocks_ok [of r] by (simp_all add: bl)
  obtain d where d: "(info, d) \<in> set ds" "send_ok d vals"
    using block_send_ok [OF wf bok, of info 1 vals] by auto
  have ds: "d = desc_of (labels r) info"
    using assigned_desc [OF _ d(1), of "(info, 1, vals) # ss" r] bl by simp
  obtain n h where nh: "desc_of (labels r) info = NewDesc n h (labels r)"
    using desc_of_NewDesc [of info] info_field by auto
  have "length vals = length (labels r)" using d(2) by (simp add: ds nh send_ok_NewDesc)
  moreover have "td_desc (set_descs c ds info) = Some (desc_of (labels r) info)" for c
    using wf d(1) ds by (intro set_descs_in) (simp_all add: block_wf_def)
  moreover have "prog rs = (prog as @ map (\<lambda>(f, d). SetDesc f d) ds) @
      Send info 1 vals # (map (\<lambda>(f, v, ls). Send f v ls) ss @ program bl @ prog bs)"
    by (simp add: prog_def rs bl block_def)
  ultimately show ?thesis using ok(2) by blast
qed

lemma overlap_crashes:
  fixes c :: "'f collector"
  assumes ok: "list_all row_ok rs1" "list_all row_ok rs2"
    and r: "r1 \<in> set rs1" "r2 \<in> set rs2" "length (labels r1) \<noteq> length (labels r2)"
  shows "\<exists>zs. merges [prog rs1, prog rs2] zs \<and> snd (snd (run_instrs c zs)) \<noteq> None"
proof -
  obtain as1 ds1 v1 rest1 where 1: "prog rs1 = (prog as1 @ map (\<lambda>(f, d). SetDesc f d) ds1) @ Send info 1 v1 # rest1"
      "list_all row_ok as1" "length v1 = length (labels r1)"
    using prog_cut [OF r(1) ok(1)] by blast
  obtain as2 ds2 v2 rest2 where 2: "prog rs2 = (prog as2 @ map (\<lambda>(f, d). SetDesc f d) ds2) @ Send info 1 v2 # rest2"
      "list_all row_ok as2" "\<forall>c. td_desc (set_descs c ds2 info) = Some (desc_of (labels r2) info)"
    using prog_cut [OF r(2) ok(2)] by blast
  let ?tail = "Send info 1 v1 # rest1 @ Send info 1 v2 # rest2"
  let ?zs = "prog as1 @ map (\<lambda>(f, d). SetDesc f d) ds1 @ prog as2 @ map (\<lambda>(f, d). SetDesc f d) ds2 @ ?tail"
  have "merges [prog rs1, prog rs2] ?zs"
    unfolding 1(1) 2(1)
    using merges_cut [of "prog as1 @ map (\<lambda>(f, d). SetDesc f d) ds1" "Send info 1 v1 # rest1"
        "prog as2 @ map (\<lambda>(f, d). SetDesc f d) ds2" "Send info 1 v2 # rest2"]
    by simp
  moreover have "snd (snd (run_instrs c ?zs)) \<noteq> None"
  proof -
    obtain c1 where "snd (snd (run_instrs c ?zs)) = snd (snd (run_instrs c1
        (map (\<lambda>(f, d). SetDesc f d) ds1 @ prog as2 @ map (\<lambda>(f, d). SetDesc f d) ds2 @ ?tail)))"
      using run_prog_prefix [OF 1(2)] by blast
    also have "\<dots> = snd (snd (run_instrs (set_descs c1 ds1)
        (prog as2 @ map (\<lambda>(f, d). SetDesc f d) ds2 @ ?tail)))"
      by (simp only: run_set_descs)
    also obtain c2 where "\<dots> = snd (snd (run_instrs c2 (map (\<lambda>(f, d). SetDesc f d) ds2 @ ?tail)))"
      using run_prog_prefix [OF 2(2)] by blast
    also have "\<dots> = snd (snd (run_instrs (set_descs c2 ds2) ?tail))"
      by (simp only: run_set_descs)
    finally have eq: "snd (snd (run_instrs c ?zs)) = snd (snd (run_instrs (set_descs c2 ds2) ?tail))" .
    obtain n h where "desc_of (labels r2) info = NewDesc n h (labels r2)"
      using desc_of_NewDesc [of info] info_field by auto
    then have bad: "\<not> send_ok (desc_of (labels r2) info) v1"
      using r(3) 1(3) by (simp add: send_ok_NewDesc)
    obtain e where "typedDesc_mustNewConstMetric (set_descs c2 ds2 info) 1 v1 = Panic (PanicMetricErr e)"
      using MustNewConstMetric_panics [OF bad, of "td_type (c2 info)" 1] 2(3)
      by (auto simp: typedDesc_mustNewConstMetric_def)
    then show ?thesis by (simp add: eq)
  qed
  ultimately show ?thesis by blast
qed

lemma overlap_no_crash:
  fixes c :: "'f collector"
  assumes ok: "list_all row_ok rs1" "list_all row_ok rs2"
    and same: "\<forall>r1 \<in> set rs1. \<forall>r2 \<in> set rs2. length (labels r1) = length (labels r2)"
    and zs: "merges [prog rs1, prog rs2] zs"
  shows "snd (snd (run_instrs c zs)) = None"
proof (cases "rs1 = [] \<or> rs2 = []")
  case True
  then obtain rs where "list_all row_ok rs" "zs = prog rs"
    using zs ok merges_one by (fastforce simp: prog_def)
  then show ?thesis using run_prog_prefix [of rs c "[]"] by auto
next
  case False
  define Q where "Q f d \<longleftrightarrow> (\<exists>r \<in> set (rs1 @ rs2). d = desc_of (labels r) f)" for f d
  have eq: "length (labels r) = length (labels r')" if "r \<in> set (rs1 @ rs2)" "r' \<in> set (rs1 @ rs2)" for r r'
  proof -
    obtain a b where "a \<in> set rs1" "b \<in> set rs2" using False by (metis list.set_sel(1))
    with same that show ?thesis by (metis Un_iff set_append)
  qed
  have "list_all row_ok (rs1 @ rs2)" using ok by simp
  then have "row_ok r" if "r \<in> set (rs1 @ rs2)" for r using that by (simp only: list_all_iff)
  then have exch: "Q f d \<Longrightarrow> f \<in> fst ` set (t1 @ t2) \<Longrightarrow> r \<in> set (rs1 @ rs2) \<Longrightarrow>
      send_ok (desc_of (labels r) f) ls \<Longrightarrow> send_ok d ls" for r f d ls
    unfolding Q_def using eq by (metis send_ok_exchange)
  have "list_all (fits Q) (prog rs)" if "set rs \<subseteq> set (rs1 @ rs2)" "list_all row_ok rs" for rs
  proof (rule prog_fits [OF that(2)])
    show "Q f (desc_of (labels r) f)" if "r \<in> set rs" for r f
      using that \<open>set rs \<subseteq> set (rs1 @ rs2)\<close> by (auto simp: Q_def)
    show "send_ok d ls" if "r \<in> set rs" "f \<in> fst ` set (t1 @ t2)" "Q f d"
      "send_ok (desc_of (labels r) f) ls" for r f d ls
      using exch [OF that(3,2) _ that(4)] that(1) \<open>set rs \<subseteq> set (rs1 @ rs2)\<close> by blast
  qed
  then have "list_all (fits Q) (prog rs1)" "list_all (fits Q) (prog rs2)" using ok by auto
  then have "list_all (fits Q) zs"
    using merges_set [OF zs] by (auto simp: list_all_iff)
  moreover have "guarded {} zs"
    using prog_guarded by (intro guarded_merges [OF zs]) simp
  ultimately show ?thesis using run_fits [of "{}" zs Q c] by simp
qed

lemma overlap_crash_iff:
  fixes c :: "'f collector"
  assumes "list_all row_ok rs1" and "list_all row_ok rs2"
  shows "(\<exists>zs. merges [prog rs1, prog rs2] zs \<and> snd (snd (run_instrs c zs)) \<noteq> None) \<longleftrightarrow>
    (\<exists>r1 \<in> set rs1. \<exists>r2 \<in> set rs2. length (labels r1) \<noteq> length (labels r2))"
proof
  assume "\<exists>zs. merges [prog rs1, prog rs2] zs \<and> snd (snd (run_instrs c zs)) \<noteq> None"
  then obtain zs where "merges [prog rs1, prog rs2] zs" "snd (snd (run_instrs c zs)) \<noteq> None" by blast
  then have "\<not> (\<forall>r1 \<in> set rs1. \<forall>r2 \<in> set rs2. length (labels r1) = length (labels r2))"
    using overlap_no_crash [OF assms, of zs c] by argo
  then show "\<exists>r1 \<in> set rs1. \<exists>r2 \<in> set rs2. length (labels r1) \<noteq> length (labels r2)" by simp
next
  assume "\<exists>r1 \<in> set rs1. \<exists>r2 \<in> set rs2. length (labels r1) \<noteq> length (labels r2)"
  then show "\<exists>zs. merges [prog rs1, prog rs2] zs \<and> snd (snd (run_instrs c zs)) \<noteq> None"
    using overlap_crashes [OF assms] by blast
qed

end

section \<open>Containers, images and pods\<close>

lemma descs_append: "descs sub (t1 @ t2) L = descs sub t1 L @ descs sub t2 L"
  by (simp add: descs_def)

text \<open>A container of a scrape, with the statistics that scrape was given.\<close>

interpretation container_race: shared_collector container_value_type
  "\<lambda>(stats, rep). container_blocks v stats rep" "\<lambda>(stats, rep). container_ok v rep"
  "\<lambda>(stats, rep). container_samples v stats rep" "''container''" info_table
  "updateInfo_table @ updateStats_table" "enhanceAllMetrics v" "[''id'', ''pod_id'', ''pod_name'']"
  "\<lambda>(stats, rep). fst (getContainerDescLabel v rep)" CInfo
  for v
proof unfold_locales
  show "table_ok ''container'' (info_table @ updateInfo_table @ updateStats_table)" by code_simp
  show "label_names_ok [''id'', ''pod_id'', ''pod_name'']" by (rule basic_labels_ok)
  show "CInfo \<in> fst ` set info_table" by (simp add: info_table_def)
  fix r :: "ContainerStat list \<times> Container"
  obtain stats rep where r: "r = (stats, rep)" by (cases r)
  show "list_all blk_wf (case r of (stats, rep) \<Rightarrow> container_blocks v stats rep)"
    by (simp add: r container_blocks_wf)
  show "list_all blk_ok (case r of (stats, rep) \<Rightarrow> container_blocks v stats rep) \<longleftrightarrow>
      (case r of (stats, rep) \<Rightarrow> container_ok v rep)"
    by (simp add: r container_blocks_ok)
  show "map sample (program_metrics container_value_type
      (case r of (stats, rep) \<Rightarrow> container_blocks v stats rep)) =
      (case r of (stats, rep) \<Rightarrow> container_samples v stats rep)"
    by (simp add: r container_blocks_samples)
  show "case r of (stats, rep) \<Rightarrow> container_ok v rep \<Longrightarrow>
      label_names_ok (case r of (stats, rep) \<Rightarrow> fst (getContainerDescLabel v rep))"
    using container_info_ok [of v rep] by (simp add: r)
  show "\<exists>ds vals ss bs. (case r of (stats, rep) \<Rightarrow> container_blocks v stats rep) =
      (ds, (CInfo, 1, vals) # ss) # bs"
    by (simp add: r container_blocks_def sends_def)
  show "set (fst b) \<subseteq> set (descs ''container'' info_table
      (case r of (stats, rep) \<Rightarrow> fst (getContainerDescLabel v rep)) @
      descs ''container'' (updateInfo_table @ updateStats_table)
        (if enhanceAllMetrics v then case r of (stats, rep) \<Rightarrow> fst (getContainerDescLabel v rep)
         else [''id'', ''pod_id'', ''pod_name'']))"
    if "b \<in> set (case r of (stats, rep) \<Rightarrow> container_blocks v stats rep)" for b
    using that
    by (auto simp: r container_blocks_def updateInfo_def updateStats_def container_metric_labels_def
        descs_append)
qed

interpretation image_race: shared_collector image_value_type "image_blocks v" "image_ok v"
  "image_samples v" "''image''" image_info_table image_metric_table "enhanceAllMetrics v"
  imageDefaultLabels "\<lambda>rep. fst (getImageDescLabels v rep)" IInfo
  for v
proof unfold_locales
  show "table_ok ''image'' (image_info_table @ image_metric_table)" by code_simp
  show "label_names_ok imageDefaultLabels" by (rule imageDefaultLabels_ok)
  show "IInfo \<in> fst ` set image_info_table" by (simp add: image_info_table_def)
  fix rep
  show "image_ok v rep \<Longrightarrow> label_names_ok (fst (getImageDescLabels v rep))"
    using image_info_ok [of v rep] by simp
  show "\<exists>ds vals ss bs. image_blocks v rep = (ds, (IInfo, 1, vals) # ss) # bs"
    by (simp add: image_blocks_def two_part_blk_def sends_def)
  show "set (fst b) \<subseteq> set (descs ''image'' image_info_table (fst (getImageDescLabels v rep)) @
      descs ''image'' image_metric_table
        (if enhanceAllMetrics v then fst (getImageDescLabels v rep) else imageDefaultLabels))"
    if "b \<in> set (image_blocks v rep)" for b
    using that by (auto simp: image_blocks_def two_part_blk_def image_metric_labels_def)
qed

interpretation pod_race: shared_collector pod_value_type "pod_blocks v" "pod_ok v"
  "pod_samples v" "''pod''" pod_info_table pod_metric_table "enhanceAllMetrics v"
  podDefaultLabels "\<lambda>rep. fst (getPodDescLabels v rep)" PInfo
  for v
proof unfold_locales
  show "table_ok ''pod'' (pod_info_table @ pod_metric_table)" by code_simp
  show "label_names_ok podDefaultLabels" by (rule podDefaultLabels_ok)
  show "PInfo \<in> fst ` set pod_info_table" by (simp add: pod_info_table_def)
  fix rep
  show "pod_ok v rep \<Longrightarrow> label_names_ok (fst (getPodDescLabels v rep))"
    using pod_info_ok [of v rep] by simp
  show "\<exists>ds vals ss bs. pod_blocks v rep = (ds, (PInfo, 1, vals) # ss) # bs"
    by (simp add: pod_blocks_def two_part_blk_def sends_def)
  show "set (fst b) \<subseteq> set (descs ''pod'' pod_info_table (fst (getPodDescLabels v rep)) @
      descs ''pod'' pod_metric_table
        (if enhanceAllMetrics v then fst (getPodDescLabels v rep) else podDefaultLabels))"
    if "b \<in> set (pod_blocks v rep)" for b
    using that by (auto simp: pod_blocks_def two_part_blk_def pod_metric_labels_def)
qed

text \<open>The loops of the three updates as programs of the locale.\<close>

lemma container_prog:
  "container_loop v stats [''id'', ''pod_id'', ''pod_name''] reps =
     container_race.prog v (map (Pair stats) reps)"
  by (simp add: container_race.prog_def container_loop_eq comp_def)

lemma image_prog: "image_loop v imageDefaultLabels reps = image_race.prog v reps"
  by (simp add: image_race.prog_def image_loop_eq)

lemma pod_prog: "pod_loop v podDefaultLabels reps = pod_race.prog v reps"
  by (simp add: pod_race.prog_def pod_loop_eq)

text \<open>The number of labels of an object is decided by the number of labels kept.\<close>

lemma label_counts:
  "length (fst (getContainerDescLabel v cnt)) = 7 + length (kept v containerDefaultLabels (cnt_Labels cnt))"
  "length (fst (getImageDescLabels v img)) = 5 + length (kept v imageDescDefaultLabels (img_Labels img))"
  "length (fst (getPodDescLabels v pod)) = 3 + length (kept v podDescDefaultLabels (pod_Labels pod))"
  by (simp_all add: getContainerDescLabel_eq getImageDescLabels_eq getPodDescLabels_eq full_labels_def
      getExtraLabelsAndValues_eq containerDefaultLabels_def imageDescDefaultLabels_def
      podDescDefaultLabels_def)

lemma map_Pair_ok: "list_all (\<lambda>(stats, rep). P rep) (map (Pair s) xs) \<longleftrightarrow> list_all P xs"
  by (simp add: list.pred_map comp_def)

lemma container_overlap_crash_iff:
  assumes "list_all (container_ok v) cs1" and "list_all (container_ok v) cs2"
  shows "(\<exists>zs. merges [container_loop v st1 [''id'', ''pod_id'', ''pod_name''] cs1,
        container_loop v st2 [''id'', ''pod_id'', ''pod_name''] cs2] zs \<and>
      snd (snd (run_instrs c zs)) \<noteq> None) \<longleftrightarrow>
    (\<exists>r1 \<in> set cs1. \<exists>r2 \<in> set cs2. length (kept v containerDefaultLabels (cnt_Labels r1)) \<noteq>
      length (kept v containerDefaultLabels (cnt_Labels r2)))"
  unfolding container_prog
  using container_race.overlap_crash_iff [of v "map (Pair st1) cs1" "map (Pair st2) cs2" c] assms
  by (simp add: map_Pair_ok label_counts)

lemma image_overlap_crash_iff:
  assumes "list_all (image_ok v) is1" and "list_all (image_ok v) is2"
  shows "(\<exists>zs. merges [image_loop v imageDefaultLabels is1, image_loop v imageDefaultLabels is2] zs \<and>
      snd (snd (run_instrs c zs)) \<noteq> None) \<longleftrightarrow>
    (\<exists>r1 \<in> set is1. \<exists>r2 \<in> set is2. length (kept v imageDescDefaultLabels (img_Labels r1)) \<noteq>
      length (kept v imageDescDefaultLabels (img_Labels r2)))"
  unfolding image_prog using image_race.overlap_crash_iff [OF assms, of c] by (simp add: label_counts)

lemma pod_overlap_crash_iff:
  assumes "list_all (pod_ok v) ps1" and "list_all (pod_ok v) ps2"
  shows "(\<exists>zs. merges [pod_loop v podDefaultLabels ps1, pod_loop v podDefaultLabels ps2] zs \<and>
      snd (snd (run_instrs c zs)) \<noteq> None) \<longleftrightarrow>
    (\<exists>r1 \<in> set ps1. \<exists>r2 \<in> set ps2. length (kept v podDescDefaultLabels (pod_Labels r1)) \<noteq>
      length (kept v podDescDefaultLabels (pod_Labels r2)))"
  unfolding pod_prog using pod_race.overlap_crash_iff [OF assms, of c] by (simp add: label_counts)

text \<open>Scrapes of objects with equal labels: each sends what it sends alone.\<close>

lemma container_overlap_exact:
  assumes ok: "\<forall>(stats, reps) \<in> set scrapes. list_all (container_ok v) reps"
    and same: "\<forall>(stats, reps) \<in> set scrapes. \<forall>rep \<in> set reps. fst (getContainerDescLabel v rep) = L"
    and zs: "merges (map (\<lambda>(stats, reps). container_loop v stats [''id'', ''pod_id'', ''pod_name''] reps) scrapes) zs"
    and types: "\<And>f. td_type (c f) = container_value_type f"
  shows "\<exists>c' ms. run_instrs c zs = (c', ms, None) \<and> mset (map sample ms) =
    mset (concat (map (\<lambda>(stats, reps). concat (map (container_samples v stats) reps)) scrapes))"
proof -
  let ?rows = "map (\<lambda>(stats, reps). map (Pair stats) reps) scrapes"
  have "list_all (list_all (\<lambda>(stats, rep). container_ok v rep)) ?rows"
    using ok by (auto simp: list_all_iff)
  moreover have "\<forall>r \<in> set (concat ?rows). (case r of (stats, rep) \<Rightarrow> fst (getContainerDescLabel v rep)) = L"
    using same by auto
  moreover have "merges (map (container_race.prog v) ?rows) zs"
    using zs by (simp add: container_prog comp_def case_prod_unfold)
  moreover have "concat (map (\<lambda>(stats, rep). container_samples v stats rep) (concat ?rows)) =
      concat (map (\<lambda>(stats, reps). concat (map (container_samples v stats) reps)) scrapes)"
  proof (induction scrapes)
    case (Cons s scrapes)
    obtain stats reps where s: "s = (stats, reps)" by (cases s)
    have "map (\<lambda>(stats, rep). container_samples v stats rep) (map (Pair stats) reps) =
        map (container_samples v stats) reps"
      by simp
    with Cons show ?case by (simp only: s list.map prod.case concat.simps map_append concat_append)
  qed simp
  ultimately show ?thesis
    using container_race.overlap_exact [of v ?rows L zs c] types by simp
qed

lemma image_overlap_exact:
  assumes "list_all (list_all (image_ok v)) scrapes"
    and "\<forall>reps \<in> set scrapes. \<forall>rep \<in> set reps. fst (getImageDescLabels v rep) = L"
    and "merges (map (image_loop v imageDefaultLabels) scrapes) zs"
    and "\<And>f. td_type (c f) = image_value_type f"
  shows "\<exists>c' ms. run_instrs c zs = (c', ms, None) \<and>
    mset (map sample ms) = mset (concat (map (image_samples v) (concat scrapes)))"
  using image_race.overlap_exact [of v scrapes L zs c] assms by (simp add: image_prog [abs_def])

lemma pod_overlap_exact:
  assumes "list_all (list_all (pod_ok v)) scrapes"
    and "\<forall>reps \<in> set scrapes. \<forall>rep \<in> set reps. fst (getPodDescLabels v rep) = L"
    and "merges (map (pod_loop v podDefaultLabels) scrapes) zs"
    and "\<And>f. td_type (c f) = pod_value_type f"
  shows "\<exists>c' ms. run_instrs c zs = (c', ms, None) \<and>
    mset (map sample ms) = mset (concat (map (pod_samples v) (concat scrapes)))"
  using pod_race.overlap_exact [of v scrapes L zs c] assms by (simp add: pod_prog [abs_def])

end
