(* ===== verification/Pdcs_SizeRace.thy ===== *)
theory Pdcs_SizeRace
  imports Pdcs_Container Reachability
begin

text \<open>
  The size cache of \<open>pdcs/container.go\<close> under concurrency. \<open>Containers\<close> takes the lock only to copy
  the two fields of \<open>cntSizeCache\<close>; what it copies of the map is a reference, and its loop then reads
  the map without the lock while the goroutine of \<open>StartCacheSizeTicker\<close> may be writing to it. Any
  number of scrapes run \<open>Containers\<close>; one goroutine runs \<open>updateContainerSize\<close>, which holds the lock
  from before its call of the engine to its end.

  A write to a Go map raises a flag in the map for its duration, and a read that finds the flag ends
  the process (\<open>fatal error: concurrent map read and map write\<close>): \<open>write_begin\<close> and \<open>write_end\<close> are
  the two ends of a write, and a read in between is \<open>read_fatal\<close>. \<open>ra_hist\<close> and \<open>ra_answers\<close> are
  history variables: the values the map has had, and the answers the engine gave to the refreshes.
\<close>

text \<open>
  A scrape: before or after its call, with the answer of the engine, or in the loop with the reports
  it has handled, those to come, the entries built, and the position in the history at which it
  copied the reference. The critical section is one step, since it only reads the two fields.
\<close>

datatype reader =
    ReaderIdle
  | Listed "list_container list"
  | InLoop "list_container list" "list_container list" "Container list" nat
  | Answered "Container list outcome"

datatype updater =
    UpdIdle
  | UpdLocked
  | UpdWriting "list_container list"
  | UpdInWrite list_container "list_container list"

datatype race_status = RaceRunning | ConcurrentMapAccess | RacePanic go_panic

record size_race =
  ra_status :: race_status
  ra_cache :: containerSizeCache
  ra_updater :: updater
  ra_readers :: "nat \<Rightarrow> reader"
  ra_hist :: "(string \<rightharpoonup> containerSize) list"
  ra_answers :: "(go_error + list_container list) list"

definition race_start :: size_race where
  "race_start =
     \<lparr>ra_status = RaceRunning, ra_cache = SetupRegistry_cache initial_size_cache,
      ra_updater = UpdIdle, ra_readers = (\<lambda>_. ReaderIdle), ra_hist = [\<lambda>_. None], ra_answers = []\<rparr>"

definition race_init :: "size_race \<Rightarrow> bool" where
  "race_init s \<longleftrightarrow> s = race_start"

abbreviation set_reader :: "nat \<Rightarrow> reader \<Rightarrow> size_race \<Rightarrow> size_race" where
  "set_reader i r s \<equiv> s\<lparr>ra_readers := (ra_readers s)(i := r)\<rparr>"

text \<open>The steps of \<open>Containers\<close>.\<close>

inductive reader_step :: "size_race \<Rightarrow> size_race \<Rightarrow> bool" where
  read_list:
    "\<lbrakk>ra_status s = RaceRunning; ra_readers s i = ReaderIdle\<rbrakk> \<Longrightarrow>
       reader_step s (set_reader i (Listed reports) s)"
| read_list_err:
    "\<lbrakk>ra_status s = RaceRunning; ra_readers s i = ReaderIdle\<rbrakk> \<Longrightarrow>
       reader_step s (set_reader i (Answered (Err e)) s)"
| read_copy:
    "\<lbrakk>ra_status s = RaceRunning; ra_readers s i = Listed reports; ra_updater s = UpdIdle;
      cacheError (ra_cache s) = None\<rbrakk> \<Longrightarrow>
       reader_step s (set_reader i (InLoop [] reports [] (length (ra_hist s) - 1)) s)"
| read_hidden:
    "\<lbrakk>ra_status s = RaceRunning; ra_readers s i = Listed reports; ra_updater s = UpdIdle;
      cacheError (ra_cache s) \<noteq> None\<rbrakk> \<Longrightarrow>
       reader_step s (set_reader i (Answered (Ok [])) s)"
| read_entry:
    "\<lbrakk>ra_status s = RaceRunning; ra_readers s i = InLoop ds (rep # reps) cs k;
      \<nexists>cnt rest. ra_updater s = UpdInWrite cnt rest;
      container_of (cache (ra_cache s)) rep = Ok c\<rbrakk> \<Longrightarrow>
       reader_step s (set_reader i (InLoop (ds @ [rep]) reps (cs @ [c]) k) s)"
| read_panic:
    "\<lbrakk>ra_status s = RaceRunning; ra_readers s i = InLoop ds (rep # reps) cs k;
      \<nexists>cnt rest. ra_updater s = UpdInWrite cnt rest;
      container_of (cache (ra_cache s)) rep = Panic p\<rbrakk> \<Longrightarrow>
       reader_step s (s\<lparr>ra_status := RacePanic p\<rparr>)"
| read_fatal:
    "\<lbrakk>ra_status s = RaceRunning; ra_readers s i = InLoop ds (rep # reps) cs k;
      ra_updater s = UpdInWrite cnt rest\<rbrakk> \<Longrightarrow>
       reader_step s (s\<lparr>ra_status := ConcurrentMapAccess\<rparr>)"
| read_return:
    "\<lbrakk>ra_status s = RaceRunning; ra_readers s i = InLoop ds [] cs k\<rbrakk> \<Longrightarrow>
       reader_step s (set_reader i (Answered (Ok cs)) s)"
| read_again:
    "\<lbrakk>ra_status s = RaceRunning; ra_readers s i = Answered r\<rbrakk> \<Longrightarrow>
       reader_step s (set_reader i ReaderIdle s)"

text \<open>The steps of \<open>updateContainerSize\<close>.\<close>

inductive updater_step :: "size_race \<Rightarrow> size_race \<Rightarrow> bool" where
  upd_lock:
    "\<lbrakk>ra_status s = RaceRunning; ra_updater s = UpdIdle\<rbrakk> \<Longrightarrow>
       updater_step s (s\<lparr>ra_updater := UpdLocked\<rparr>)"
| upd_fail:
    "\<lbrakk>ra_status s = RaceRunning; ra_updater s = UpdLocked\<rbrakk> \<Longrightarrow>
       updater_step s (s\<lparr>ra_updater := UpdIdle, ra_cache := (ra_cache s)\<lparr>cacheError := Some e\<rparr>,
                         ra_answers := ra_answers s @ [Inl e]\<rparr>)"
| upd_list:
    "\<lbrakk>ra_status s = RaceRunning; ra_updater s = UpdLocked\<rbrakk> \<Longrightarrow>
       updater_step s (s\<lparr>ra_updater := UpdWriting reports, ra_answers := ra_answers s @ [Inr reports]\<rparr>)"
| write_begin:
    "\<lbrakk>ra_status s = RaceRunning; ra_updater s = UpdWriting (cnt # rest)\<rbrakk> \<Longrightarrow>
       updater_step s (s\<lparr>ra_updater := UpdInWrite cnt rest\<rparr>)"
| write_end:
    "\<lbrakk>ra_status s = RaceRunning; ra_updater s = UpdInWrite cnt rest;
      cache_put (getID (lc_ID cnt)) (size_of_container cnt) (ra_cache s) = Ok c;
      cache c = Some m\<rbrakk> \<Longrightarrow>
       updater_step s (s\<lparr>ra_updater := UpdWriting rest, ra_cache := c, ra_hist := ra_hist s @ [m]\<rparr>)"
| upd_unlock:
    "\<lbrakk>ra_status s = RaceRunning; ra_updater s = UpdWriting []\<rbrakk> \<Longrightarrow>
       updater_step s (s\<lparr>ra_updater := UpdIdle\<rparr>)"

inductive race_step :: "size_race \<Rightarrow> size_race \<Rightarrow> bool" where
  by_reader: "reader_step s t \<Longrightarrow> race_step s t"
| by_updater: "updater_step s t \<Longrightarrow> race_step s t"

section \<open>Invariant\<close>

text \<open>The reports the updater has still to store.\<close>

fun pending :: "updater \<Rightarrow> list_container list" where
  "pending (UpdWriting reports) = reports"
| "pending (UpdInWrite cnt reports) = cnt # reports"
| "pending _ = []"

text \<open>
  The entries a reader has built are those of its reports, each with the map as it was at some
  moment since the reference was copied; later entries never see an earlier map.
\<close>

definition read_from ::
  "(string \<rightharpoonup> containerSize) list \<Rightarrow> nat \<Rightarrow> list_container list \<Rightarrow> Container list \<Rightarrow> bool" where
  "read_from hist k reports cs \<longleftrightarrow>
     (\<exists>js. sorted js \<and> set js \<subseteq> {k..<length hist} \<and> length js = length reports \<and>
        cs = map2 (\<lambda>j rep. listed_container (Some (hist ! j)) rep) js reports)"

definition reader_inv :: "(string \<rightharpoonup> containerSize) list \<Rightarrow> reader \<Rightarrow> bool" where
  "reader_inv hist r \<longleftrightarrow>
     (case r of InLoop ds reps cs k \<Rightarrow> k < length hist \<and> read_from hist k ds cs | _ \<Rightarrow> True)"

definition race_inv :: "size_race \<Rightarrow> bool" where
  "race_inv s \<longleftrightarrow>
     ra_hist s \<noteq> [] \<and> cache (ra_cache s) = Some (last (ra_hist s)) \<and>
     put_sizes (pending (ra_updater s)) (ra_cache s) =
       refresh_all (ra_answers s) (SetupRegistry_cache initial_size_cache) \<and>
     (\<forall>i. reader_inv (ra_hist s) (ra_readers s i)) \<and>
     (ra_status s = ConcurrentMapAccess \<longrightarrow>
        (\<exists>cnt rest. ra_updater s = UpdInWrite cnt rest) \<and>
        (\<exists>i ds rep reps cs k. ra_readers s i = InLoop ds (rep # reps) cs k))"

lemma read_from_Nil: "k < length hist \<Longrightarrow> read_from hist k [] []"
  by (auto simp: read_from_def)

lemma read_from_grow: "read_from hist k reports cs \<Longrightarrow> read_from (hist @ [m]) k reports cs"
  unfolding read_from_def
proof (elim exE conjE)
  fix js
  assume js: "sorted js" "set js \<subseteq> {k..<length hist}" "length js = length reports"
    "cs = map2 (\<lambda>j rep. listed_container (Some (hist ! j)) rep) js reports"
  have "map2 (\<lambda>j rep. listed_container (Some (hist ! j)) rep) js reports =
      map2 (\<lambda>j rep. listed_container (Some ((hist @ [m]) ! j)) rep) js reports"
    using js(2) by (intro map_cong refl) (auto simp: nth_append dest: set_zip_leftD)
  with js show "\<exists>js. sorted js \<and> set js \<subseteq> {k..<length (hist @ [m])} \<and> length js = length reports \<and>
      cs = map2 (\<lambda>j rep. listed_container (Some ((hist @ [m]) ! j)) rep) js reports"
    by (intro exI [of _ js]) auto
qed

lemma read_from_snoc:
  assumes "read_from hist k reports cs" and "k < length hist"
  shows "read_from hist k (reports @ [rep]) (cs @ [listed_container (Some (last hist)) rep])"
proof -
  obtain js where js: "sorted js" "set js \<subseteq> {k..<length hist}" "length js = length reports"
    "cs = map2 (\<lambda>j rep. listed_container (Some (hist ! j)) rep) js reports"
    using assms(1) by (auto simp: read_from_def)
  then have "sorted (js @ [length hist - 1])" by (force simp: sorted_append)
  moreover have "hist \<noteq> []" using assms(2) by auto
  ultimately show ?thesis
    using js assms(2) unfolding read_from_def
    by (intro exI [of _ "js @ [length hist - 1]"]) (auto simp: last_conv_nth)
qed

lemma reader_inv_grow: "reader_inv hist r \<Longrightarrow> reader_inv (hist @ [m]) r"
  by (auto simp: reader_inv_def read_from_grow split: reader.splits)

lemma race_init_inv: "race_init s \<Longrightarrow> race_inv s"
  by (simp add: race_init_def race_start_def race_inv_def reader_inv_def SetupRegistry_cache_def)

lemma reader_step_inv: "reader_step s t \<Longrightarrow> race_inv s \<Longrightarrow> race_inv t"
proof (induction rule: reader_step.induct)
  case (read_entry s i ds rep reps cs k c)
  then have "c = listed_container (Some (last (ra_hist s))) rep" "reader_inv (ra_hist s) (InLoop ds (rep # reps) cs k)"
    by (auto simp: race_inv_def container_of_eq split: if_splits dest: spec [of _ i])
  then have "reader_inv (ra_hist s) (InLoop (ds @ [rep]) reps (cs @ [c]) k)"
    by (simp add: reader_inv_def read_from_snoc)
  with read_entry show ?case by (auto simp: race_inv_def)
next
  case (read_fatal s i ds rep reps cs k cnt rest)
  then have "\<exists>i ds rep reps cs k. ra_readers s i = InLoop ds (rep # reps) cs k" by blast
  with read_fatal show ?case by (simp add: race_inv_def)
qed (auto simp: race_inv_def reader_inv_def read_from_Nil)

lemma refresh_all_snoc:
  "refresh_all (hist @ [a]) c = bind_outcome (refresh_all hist c) (updateContainerSize a)"
proof (induction hist arbitrary: c)
  case Nil
  show ?case by (cases "updateContainerSize a c") simp_all
next
  case (Cons r hist)
  show ?case using Cons.IH by (cases "updateContainerSize r c") simp_all
qed

lemma updater_step_inv: "updater_step s t \<Longrightarrow> race_inv s \<Longrightarrow> race_inv t"
proof (induction rule: updater_step.induct)
  case (upd_fail s e)
  then show ?case
    by (auto simp: race_inv_def refresh_all_snoc updateContainerSize_def dest!: sym [of "Ok _"])
next
  case (upd_list s reports)
  then show ?case
    by (auto simp: race_inv_def refresh_all_snoc updateContainerSize_def dest!: sym [of "Ok _"])
next
  case (write_end s cnt rest c m)
  then show ?case by (auto simp: race_inv_def reader_inv_grow)
qed (auto simp: race_inv_def)

interpretation size_cache: inductive_invariant race_init race_step race_inv
proof unfold_locales
  show "race_inv t" if "race_inv s" "race_step s t" for s t
    using that(2,1) by (cases rule: race_step.cases) (auto intro: reader_step_inv updater_step_inv)
qed (rule race_init_inv)

section \<open>What a reader sees\<close>

lemma read_from_current:
  assumes "read_from hist (length hist - 1) reports cs" and "hist \<noteq> []"
  shows "cs = map (listed_container (Some (last hist))) reports"
proof -
  obtain js where js: "set js \<subseteq> {length hist - 1..<length hist}" "length js = length reports"
    "cs = map2 (\<lambda>j rep. listed_container (Some (hist ! j)) rep) js reports"
    using assms(1) by (auto simp: read_from_def)
  have "js = replicate (length reports) (length hist - 1)"
    using js(1,2) by (intro replicate_eqI) fastforce+
  then show ?thesis
    using js(3) assms(2) by (simp add: last_conv_nth zip_replicate1)
qed

lemma reach_read_from:
  assumes "reach race_init race_step s" and "ra_readers s i = InLoop reports rest cs k"
  shows "k < length (ra_hist s) \<and> read_from (ra_hist s) k reports cs"
  using size_cache.reach_inv [OF assms(1)] assms(2) unfolding race_inv_def reader_inv_def
  by (auto dest: spec [of _ i])

text \<open>A run in which a scrape lists one container and nothing else happens.\<close>

lemma copied_run:
  "reach race_init race_step (set_reader 0 (InLoop [] reports [] 0) race_start)"
proof -
  let ?s = "set_reader 0 (Listed reports) race_start"
  have "reach race_init race_step race_start"
    by (rule reach_init) (simp add: race_init_def)
  moreover have "race_step race_start ?s"
    by (intro by_reader read_list) (simp_all add: race_start_def)
  moreover have "race_step ?s (set_reader 0 (InLoop [] reports [] (length (ra_hist ?s) - 1)) ?s)"
    by (intro by_reader read_copy)
       (simp_all add: race_start_def SetupRegistry_cache_def initial_size_cache_def)
  ultimately have "reach race_init race_step (set_reader 0 (InLoop [] reports [] (length (ra_hist ?s) - 1)) ?s)"
    by (meson reach_step)
  then show ?thesis by (simp add: race_start_def)
qed

lemma listing_run:
  assumes "lc_Names rep \<noteq> []"
  shows "reach race_init race_step
    (set_reader 0 (InLoop [rep] [] [listed_container (Some (\<lambda>_. None)) rep] 0) race_start)"
proof -
  let ?s = "set_reader 0 (InLoop [] [rep] [] 0) race_start"
  let ?c = "listed_container (Some (\<lambda>_. None)) rep"
  have "race_step ?s (set_reader 0 (InLoop ([] @ [rep]) [] ([] @ [?c]) 0) ?s)"
    by (intro by_reader read_entry)
       (simp_all add: race_start_def SetupRegistry_cache_def container_of_eq assms)
  with copied_run [of "[rep]"] have
    "reach race_init race_step (set_reader 0 (InLoop ([] @ [rep]) [] ([] @ [?c]) 0) ?s)"
    by (rule reach_step)
  then show ?thesis by simp
qed

text \<open>A run in which a scrape reads while the ticker writes.\<close>

lemma fatal_run:
  assumes "reports \<noteq> []" and "sizes \<noteq> []"
  shows "\<exists>s. reach race_init race_step s \<and> ra_status s = ConcurrentMapAccess \<and>
    ra_readers s 0 = InLoop [] reports [] 0 \<and> ra_answers s = [Inr sizes]"
proof -
  obtain rep reps cnt rest where eq: "reports = rep # reps" "sizes = cnt # rest"
    using assms by (meson neq_Nil_conv)
  define s2 where "s2 = set_reader 0 (InLoop [] reports [] 0) race_start"
  define s3 where "s3 = s2\<lparr>ra_updater := UpdLocked\<rparr>"
  define s4 where "s4 = s3\<lparr>ra_updater := UpdWriting sizes, ra_answers := ra_answers s3 @ [Inr sizes]\<rparr>"
  define s5 where "s5 = s4\<lparr>ra_updater := UpdInWrite cnt rest\<rparr>"
  define s6 where "s6 = s5\<lparr>ra_status := ConcurrentMapAccess\<rparr>"
  note defs = race_start_def s2_def s3_def s4_def s5_def s6_def
  have "reach race_init race_step s2" unfolding s2_def by (rule copied_run)
  moreover have "race_step s2 s3"
    unfolding s3_def by (intro by_updater upd_lock) (simp_all add: defs)
  moreover have "race_step s3 s4"
    unfolding s4_def by (intro by_updater upd_list) (simp_all add: defs)
  moreover have "race_step s4 s5"
    unfolding s5_def by (intro by_updater write_begin) (simp_all add: defs eq)
  moreover have "race_step s5 s6"
    unfolding s6_def by (intro by_reader read_fatal [of _ 0 "[]" rep reps]) (simp_all add: defs eq)
  ultimately have "reach race_init race_step s6" by (meson reach_step)
  then show ?thesis by (intro exI [of _ s6]) (simp add: defs)
qed

end
