(* ===== verification/Go_Decimal.thy ===== *)
theory Go_Decimal
  imports Go_Runtime
begin

text \<open>
  The decimal text of \<open>float64\<close> values: \<open>strconv.FormatFloat(x, 'g', -1, 64)\<close> and
  \<open>strconv.ParseFloat\<close> on finite values in the normal range. With precision -1 the text has the
  fewest digits that read back as \<open>x\<close>, at most 17, and of these the closest to \<open>x\<close>; the form with an
  exponent is used when the exponent is below -4 or at least 6. The parser covers an optional sign
  and a decimal number without an exponent.
\<close>

section \<open>The shortest decimal\<close>

text \<open>The number of decimal digits, and the exponent of the first digit of a positive rational.\<close>

fun num_digits :: "nat \<Rightarrow> nat" where
  "num_digits n = (if n < 10 then 1 else Suc (num_digits (n div 10)))"

declare num_digits.simps [simp del]

definition dec_exp :: "rat \<Rightarrow> int" where
  "dec_exp x =
     (if 1 \<le> x then int (num_digits (nat \<lfloor>x\<rfloor>)) - 1 else - int (num_digits (nat (\<lceil>1 / x\<rceil> - 1))))"

text \<open>
  The candidate with \<open>n\<close> digits: the neighbours of \<open>x\<close> among the multiples of the last place, if one
  of them reads back as \<open>x\<close>.
\<close>

definition decimal_at :: "rat \<Rightarrow> nat \<Rightarrow> nat option" where
  "decimal_at x n =
     (let u = 10 powi (dec_exp x + 1 - int n); y = x / u;
          down = f64_round (of_int \<lfloor>y\<rfloor> * u) = x; up = f64_round (of_int \<lceil>y\<rceil> * u) = x
      in if down \<and> up then Some (nat (round_half_even y))
         else if down then Some (nat \<lfloor>y\<rfloor>)
         else if up then Some (nat \<lceil>y\<rceil>)
         else None)"

definition shortest_decimal :: "rat \<Rightarrow> nat \<times> nat" where
  "shortest_decimal x =
     (case filter (\<lambda>n. decimal_at x n \<noteq> None) [1..<18] of
        [] \<Rightarrow> (nat (round_half_even (x / 10 powi (dec_exp x - 16))), 17)
      | n # _ \<Rightarrow> (the (decimal_at x n), n))"

text \<open>The digits and the exponent of the first; \<open>10 ^ n\<close> is one digit of the next exponent.\<close>

definition digits_exp :: "rat \<Rightarrow> string \<times> int" where
  "digits_exp x =
     (let (m, n) = shortest_decimal x in
      if m = 10 ^ n then (''1'', dec_exp x + 1) else (dec_nat m, dec_exp x))"

section \<open>FormatFloat and ParseFloat\<close>

definition fmtF :: "string \<Rightarrow> int \<Rightarrow> string" where
  "fmtF ds e =
     (if e < 0 then ''0.'' @ replicate (nat (- e - 1)) CHR ''0'' @ ds
      else let k = nat e + 1 in
        take k ds @ replicate (k - length ds) CHR ''0'' @ (if length ds \<le> k then [] else CHR ''.'' # drop k ds))"

definition fmtE :: "string \<Rightarrow> int \<Rightarrow> string" where
  "fmtE ds e =
     take 1 ds @ (if length ds \<le> 1 then [] else CHR ''.'' # drop 1 ds) @ ''e''
     @ (if e < 0 then ''-'' else ''+'') @ (if \<bar>e\<bar> < 10 then ''0'' else []) @ dec_nat (nat \<bar>e\<bar>)"

definition FormatFloat_g :: "f64 \<Rightarrow> string" where
  "FormatFloat_g x =
     (if x = 0 then ''0''
      else let (ds, e) = digits_exp \<bar>x\<bar> in
        (if x < 0 then ''-'' else []) @ (if e < -4 \<or> 6 \<le> e then fmtE ds e else fmtF ds e))"

definition is_digit :: "char \<Rightarrow> bool" where
  "is_digit c \<longleftrightarrow> 48 \<le> byte c \<and> byte c \<le> 57"

definition parse_unsigned :: "string \<Rightarrow> f64 option" where
  "parse_unsigned s =
     (let ip = takeWhile is_digit s; rest = dropWhile is_digit s;
          fp = (if take 1 rest = ''.'' then drop 1 rest else [])
      in if (rest = [] \<or> take 1 rest = ''.'') \<and> list_all is_digit fp \<and> ip @ fp \<noteq> []
         then Some (f64_round (of_nat (undec 0 (ip @ fp)) / 10 ^ length fp)) else None)"

definition ParseFloat :: "string \<Rightarrow> go_error + f64" where
  "ParseFloat s =
     (case (if take 1 s = ''-'' then map_option uminus (parse_unsigned (drop 1 s))
            else if take 1 s = ''+'' then parse_unsigned (drop 1 s)
            else parse_unsigned s) of
        None \<Rightarrow> Inl (NumError s)
      | Some x \<Rightarrow> Inr x)"

section \<open>Number of digits\<close>

lemma num_digits_pos: "0 < num_digits n"
  by (subst num_digits.simps) simp

lemma num_digits_bounds: "0 < n \<Longrightarrow> 10 ^ (num_digits n - 1) \<le> n \<and> n < 10 ^ num_digits n"
proof (induction n rule: num_digits.induct)
  case (1 n)
  show ?case
  proof (cases "n < 10")
    case True
    with 1 show ?thesis by (simp add: num_digits.simps [of n])
  next
    case False
    define d where "d = num_digits (n div 10)"
    have d: "num_digits n = Suc d" "0 < d" using False num_digits_pos by (simp_all add: num_digits.simps [of n] d_def)
    have "10 ^ (d - 1) \<le> n div 10" "n div 10 < 10 ^ d" using 1 False by (simp_all add: d_def)
    then have "10 * 10 ^ (d - 1) \<le> n" "n < 10 * 10 ^ d" by linarith+
    then show ?thesis using d by (simp add: power_eq_if [of _ d])
  qed
qed

lemma length_dec_nat: "length (dec_nat n) = num_digits n"
  by (induction n rule: dec_nat.induct) (simp add: dec_nat.simps num_digits.simps)

lemma num_digits_eq: "0 < d \<Longrightarrow> 10 ^ (d - 1) \<le> n \<Longrightarrow> n < 10 ^ d \<Longrightarrow> num_digits n = d"
proof -
  assume d: "0 < d" and b: "10 ^ (d - 1) \<le> n" "n < 10 ^ d"
  have "(0::nat) < 10 ^ (d - 1)" by simp
  with b have "0 < n" by linarith
  note nb = num_digits_bounds [OF this]
  have "10 ^ (d - 1) < (10::nat) ^ num_digits n" "10 ^ (num_digits n - 1) < (10::nat) ^ d"
    using nb b by linarith+
  then have "d - 1 < num_digits n" "num_digits n - 1 < d"
    by (simp_all add: power_strict_increasing_iff)
  then show ?thesis using d num_digits_pos [of n] by linarith
qed

lemma powi_shift: "(10 :: rat) powi a * 10 ^ k = 10 powi (a + int k)"
  by (simp add: power_int_add)

lemma dec_exp_bounds:
  assumes "0 < x"
  shows "10 powi dec_exp x \<le> x" and "x < 10 powi (dec_exp x + 1)"
proof -
  have "10 powi dec_exp x \<le> x \<and> x < 10 powi (dec_exp x + 1)"
  proof (cases "1 \<le> x")
    case True
    define n where "n = nat \<lfloor>x\<rfloor>"
    have n: "0 < n" "of_nat n \<le> x" "x < of_nat n + 1"
      using True by (simp_all add: n_def of_nat_nat) linarith+
    note b = num_digits_bounds [OF n(1)]
    have "(of_nat (10 ^ (num_digits n - 1)) :: rat) \<le> of_nat n"
      using conjunct1 [OF b] by (simp only: of_nat_le_iff)
    moreover have "(of_nat (Suc n) :: rat) \<le> of_nat (10 ^ num_digits n)"
      using conjunct2 [OF b] by (simp only: of_nat_le_iff Suc_le_eq)
    ultimately have "10 ^ (num_digits n - 1) \<le> x" "x < 10 ^ num_digits n"
      using n(2,3) unfolding of_nat_power of_nat_numeral of_nat_Suc by linarith+
    moreover have e: "dec_exp x = int (num_digits n - 1)" "dec_exp x + 1 = int (num_digits n)"
      using True num_digits_pos [of n] by (simp_all add: dec_exp_def n_def)
    ultimately show ?thesis unfolding e(2) unfolding e(1) power_int_of_nat by blast
  next
    case False
    define n where "n = nat (\<lceil>1 / x\<rceil> - 1)"
    have inv: "1 < 1 / x" using False assms by (simp add: field_simps)
    then have "1 < \<lceil>1 / x\<rceil>" by (simp add: less_ceiling_iff)
    then have n: "0 < n" "of_nat n < 1 / x" "1 / x \<le> of_nat n + 1"
      by (simp_all add: n_def of_nat_nat) linarith+
    note b = num_digits_bounds [OF n(1)]
    have "(of_nat (10 ^ (num_digits n - 1)) :: rat) \<le> of_nat n"
      using conjunct1 [OF b] by (simp only: of_nat_le_iff)
    moreover have "(of_nat (Suc n) :: rat) \<le> of_nat (10 ^ num_digits n)"
      using conjunct2 [OF b] by (simp only: of_nat_le_iff Suc_le_eq)
    ultimately have "10 ^ (num_digits n - 1) < 1 / x" "1 / x \<le> 10 ^ num_digits n"
      using n(2,3) unfolding of_nat_power of_nat_numeral of_nat_Suc by linarith+
    then have "x < inverse (10 ^ (num_digits n - 1))" "inverse (10 ^ num_digits n) \<le> x"
      using assms by (simp_all add: field_simps)
    moreover have e: "dec_exp x = - int (num_digits n)" "dec_exp x + 1 = - int (num_digits n - 1)"
      using False num_digits_pos [of n] by (simp_all add: dec_exp_def n_def)
    ultimately show ?thesis
      unfolding e(2) unfolding e(1) power_int_minus power_int_of_nat by blast
  qed
  then show "10 powi dec_exp x \<le> x" and "x < 10 powi (dec_exp x + 1)" by simp_all
qed

lemma dec_exp_ge: "10 powi k \<le> x \<Longrightarrow> k \<le> dec_exp x"
proof (rule ccontr)
  assume x: "10 powi k \<le> x" and "\<not> k \<le> dec_exp x"
  then have "(10 :: rat) powi (dec_exp x + 1) \<le> 10 powi k" by (intro power_int_increasing) auto
  moreover have "(0 :: rat) < 10 powi k" by simp
  with x have "0 < x" by linarith
  ultimately show False using dec_exp_bounds(2) [of x] x by linarith
qed

lemma dec_exp_less: "0 < x \<Longrightarrow> x < 10 powi k \<Longrightarrow> dec_exp x < k"
proof (rule ccontr)
  assume x: "0 < x" "x < 10 powi k" and "\<not> dec_exp x < k"
  then have "(10 :: rat) powi k \<le> 10 powi dec_exp x" by (intro power_int_increasing) auto
  then show False using dec_exp_bounds(1) [OF x(1)] x(2) by linarith
qed

section \<open>Decimals close to a double\<close>

text \<open>A double is what every number within half a unit of its last place rounds to.\<close>

lemma f64_exp_unique:
  assumes "2 powi (e + 52) \<le> z" and "z < 2 powi (e + 53)"
  shows "f64_exp z = e"
proof -
  have "(0 :: rat) < 2 powi (e + 52)" by simp
  then have z: "0 < z" using assms(1) by linarith
  note b = f64_exp_bounds [OF z]
  have "(2 :: rat) powi (f64_exp z + 52) < 2 powi (e + 53)" "(2 :: rat) powi (e + 52) < 2 powi (f64_exp z + 53)"
    using b assms by linarith+
  moreover have lt: "a < b" if "(2 :: rat) powi a < 2 powi b" for a b :: int
    using that power_int_increasing [of b a "2 :: rat"] by (meson leI not_less one_le_numeral)
  ultimately have "f64_exp z + 52 < e + 53" "e + 52 < f64_exp z + 53" by (blast intro: lt)+
  then show ?thesis by simp
qed

lemma round_half_even_near:
  assumes "\<bar>y - of_int m\<bar> < 1 / 2"
  shows "round_half_even y = m"
proof -
  have "\<bar>of_int (round_half_even y) - of_int m\<bar> < (1 :: rat)"
    using round_half_even_error [of y] assms by linarith
  then have "\<bar>of_int (round_half_even y - m)\<bar> < (1 :: rat)" by simp
  then have "\<bar>round_half_even y - m\<bar> < 1" by linarith
  then show ?thesis by simp
qed

lemma double_significand:
  assumes "0 < x" and "f64_round x = x"
  shows "\<exists>m. x = of_int m * 2 powi f64_exp x \<and> 2 ^ 52 \<le> m \<and> m < 2 ^ 53"
proof -
  define m where "m = round_half_even (x / 2 powi f64_exp x)"
  have x: "x = of_int m * 2 powi f64_exp x"
    using assms by (simp add: f64_round_def Let_def m_def)
  note b = f64_exp_bounds [OF assms(1)]
  have u: "(0 :: rat) < 2 powi f64_exp x" by simp
  have "2 ^ 52 * 2 powi f64_exp x \<le> (of_int m * 2 powi f64_exp x :: rat)"
    "of_int m * 2 powi f64_exp x < 2 ^ 53 * (2 powi f64_exp x :: rat)"
    using b x by (simp_all add: power_int_add mult.commute)
  then have "2 ^ 52 \<le> (of_int m :: rat)" "of_int m < (2 ^ 53 :: rat)" using u by simp_all
  then have "(of_int (2 ^ 52) :: rat) \<le> of_int m" "(of_int m :: rat) < of_int (2 ^ 53)" by simp_all
  then have "2 ^ 52 \<le> m" "m < 2 ^ 53" by (simp_all only: of_int_le_iff of_int_less_iff)
  with x show ?thesis by blast
qed

lemma f64_round_near:
  assumes x: "0 < x" "f64_round x = x" and z: "\<bar>z - x\<bar> < 2 powi (f64_exp x - 1)"
    and low: "x = 2 powi (f64_exp x + 52) \<Longrightarrow> \<bar>z - x\<bar> < 2 powi (f64_exp x - 2)"
  shows "f64_round z = x"
proof -
  define e where "e = f64_exp x"
  define u where "u = (2 :: rat) powi e"
  obtain m where m: "x = of_int m * u" "2 ^ 52 \<le> m" "m < 2 ^ 53"
    using double_significand [OF x] by (auto simp: u_def e_def)
  have u: "0 < u" by (simp add: u_def)
  have pw: "2 powi (e - 1) = u / 2" "2 powi (e - 2) = u / 4" "2 powi (e + 52) = u * 2 ^ 52"
    "2 powi (e + 53) = u * 2 ^ 53"
    by (simp_all add: u_def power_int_diff power_int_add)
  have near: "\<bar>z - x\<bar> < u / 2" using z by (simp add: e_def [symmetric] pw)
  have mr: "2 ^ 52 \<le> (of_int m :: rat)" "of_int m + 1 \<le> (2 ^ 53 :: rat)"
  proof -
    have "(of_int (2 ^ 52) :: rat) \<le> of_int m" "(of_int (m + 1) :: rat) \<le> of_int (2 ^ 53)"
      using m(2,3) by (simp_all only: of_int_le_iff)
    then show "2 ^ 52 \<le> (of_int m :: rat)" "of_int m + 1 \<le> (2 ^ 53 :: rat)" by simp_all
  qed
  have up: "z < u * 2 ^ 53"
  proof -
    have "z < (of_int m + 1) * u" using near m(1) u unfolding distrib_right mult_1 by linarith
    also have "\<dots> \<le> 2 ^ 53 * u" using mr(2) u by (intro mult_right_mono) auto
    finally show ?thesis by (simp add: mult.commute)
  qed
  show ?thesis
  proof (cases "u * 2 ^ 52 \<le> z")
    case True
    then have pos: "0 < z" using u by (simp add: less_le_trans)
    have fe: "f64_exp z = e" using True up by (intro f64_exp_unique) (simp_all add: pw)
    have "\<bar>z / u - of_int m\<bar> < 1 / 2"
    proof -
      have "z / u - of_int m = (z - x) / u" using u m(1) by (simp add: field_simps)
      then show ?thesis using near u by (simp add: abs_divide field_simps)
    qed
    then have "round_half_even (z / u) = m" by (rule round_half_even_near)
    then show ?thesis using pos fe m(1) by (simp add: f64_round_def Let_def u_def)
  next
    case False
    then have zx: "z < x" using m(1) mr(1) u by (metis mult.commute mult_right_mono not_le order_less_le order.trans less_imp_le)
    have "m = 2 ^ 52"
    proof (rule ccontr)
      assume "m \<noteq> 2 ^ 52"
      then have "2 ^ 52 + 1 \<le> m" using m(2) by simp
      then have "(of_int (2 ^ 52 + 1) :: rat) \<le> of_int m" by (simp only: of_int_le_iff)
      then have "(2 ^ 52 + 1) * u \<le> x" using u by (simp add: m(1))
      then have "u * 2 ^ 52 + u \<le> x" by (simp add: algebra_simps)
      with near False u show False by linarith
    qed
    then have xe: "x = u * 2 ^ 52" using m(1) by simp
    then have "x = 2 powi (e + 52)" by (simp only: pw)
    then have "x = 2 powi (f64_exp x + 52)" by (simp only: e_def)
    then have "\<bar>z - x\<bar> < 2 powi (f64_exp x - 2)" by (rule low)
    then have z4: "\<bar>z - x\<bar> < u / 4" unfolding e_def [symmetric] pw .
    have p: "(2 :: rat) ^ 52 = 4503599627370496" "(2 :: rat) ^ 51 = 2251799813685248" by simp_all
    have lo: "u * 2 ^ 51 \<le> z" using z4 xe u unfolding p by linarith
    have pos: "0 < z" using lo u by (simp add: less_le_trans)
    have fe: "f64_exp z = e - 1"
      using lo False by (intro f64_exp_unique) (simp_all add: u_def power_int_diff power_int_add)
    have "\<bar>z / (u / 2) - of_int (2 ^ 53)\<bar> < 1 / 2"
    proof -
      have "z / (u / 2) - of_int (2 ^ 53) = (z - x) * 2 / u" using u xe by (simp add: field_simps)
      moreover have "\<bar>(z - x) * 2 / u\<bar> = \<bar>z - x\<bar> * 2 / u" unfolding abs_divide abs_mult using u by simp
      moreover have "\<bar>z - x\<bar> * 2 / u < 1 / 2" unfolding pos_divide_less_eq [OF u] using z4 by simp
      ultimately show ?thesis by simp
    qed
    then have "round_half_even (z / (u / 2)) = 2 ^ 53" by (rule round_half_even_near)
    moreover have "f64_round z = of_int (round_half_even (z / (u / 2))) * (u / 2)"
      using pos fe unfolding f64_round_def Let_def pw(1) [symmetric] by simp
    ultimately show ?thesis using xe by simp
  qed
qed

section \<open>The search for the shortest decimal\<close>

lemma round_half_even_cases: "round_half_even y = \<lfloor>y\<rfloor> \<or> round_half_even y = \<lceil>y\<rceil>"
proof (cases "y = of_int \<lfloor>y\<rfloor>")
  case True
  then show ?thesis by (metis round_half_even_of_int)
next
  case False
  then have "\<lceil>y\<rceil> = \<lfloor>y\<rfloor> + 1" by (simp add: ceiling_altdef)
  then show ?thesis by (auto simp: round_half_even_def Let_def)
qed

text \<open>A candidate reads back as \<open>x\<close> and has the stated number of digits, or is the next power of ten.\<close>

lemma decimal_at_sound:
  assumes x: "0 < x" and n: "0 < n" and m: "decimal_at x n = Some m"
  shows "f64_round (of_nat m * 10 powi (dec_exp x + 1 - int n)) = x \<and> 10 ^ (n - 1) \<le> m \<and> m \<le> 10 ^ n"
proof -
  define u where "u = (10 :: rat) powi (dec_exp x + 1 - int n)"
  define y where "y = x / u"
  have u: "0 < u" by (simp add: u_def)
  have "u * 10 ^ (n - 1) = 10 powi dec_exp x" "u * 10 ^ n = 10 powi (dec_exp x + 1)"
    using n by (simp_all add: u_def powi_shift of_nat_diff)
  then have "10 ^ (n - 1) \<le> y" "y < 10 ^ n"
    using dec_exp_bounds [OF x] u by (simp_all add: y_def field_simps)
  then have "of_int (10 ^ (n - 1)) \<le> y" "y \<le> of_int (10 ^ n)" by simp_all
  then have fc: "10 ^ (n - 1) \<le> \<lfloor>y\<rfloor>" "\<lceil>y\<rceil> \<le> 10 ^ n" by (simp_all only: le_floor_iff ceiling_le_iff)
  moreover have "\<lfloor>y\<rfloor> \<le> \<lceil>y\<rceil>" by (rule floor_le_ceiling)
  ultimately have "10 ^ (n - 1) \<le> \<lfloor>y\<rfloor> \<and> \<lfloor>y\<rfloor> \<le> 10 ^ n" "10 ^ (n - 1) \<le> \<lceil>y\<rceil> \<and> \<lceil>y\<rceil> \<le> 10 ^ n"
    by linarith+
  then have rng: "10 ^ (n - 1) \<le> k \<and> k \<le> 10 ^ n" if "k = \<lfloor>y\<rfloor> \<or> k = \<lceil>y\<rceil>" for k
    using that by blast
  have m': "(if f64_round (of_int \<lfloor>y\<rfloor> * u) = x \<and> f64_round (of_int \<lceil>y\<rceil> * u) = x
       then Some (nat (round_half_even y))
       else if f64_round (of_int \<lfloor>y\<rfloor> * u) = x then Some (nat \<lfloor>y\<rfloor>)
       else if f64_round (of_int \<lceil>y\<rceil> * u) = x then Some (nat \<lceil>y\<rceil>) else None) = Some m"
    using m unfolding decimal_at_def Let_def u_def y_def .
  obtain k where k: "m = nat k" "k = \<lfloor>y\<rfloor> \<or> k = \<lceil>y\<rceil>" "f64_round (of_int k * u) = x"
  proof (cases "f64_round (of_int \<lfloor>y\<rfloor> * u) = x")
    case down: True
    show thesis
    proof (cases "f64_round (of_int \<lceil>y\<rceil> * u) = x")
      case True
      then have "m = nat (round_half_even y)" using m' down by simp
      then show thesis using that round_half_even_cases [of y] down True by metis
    next
      case False
      then have "m = nat \<lfloor>y\<rfloor>" using m' down by simp
      then show thesis using that [OF _ _ down] by blast
    qed
  next
    case down: False
    show thesis
    proof (cases "f64_round (of_int \<lceil>y\<rceil> * u) = x")
      case True
      then have "m = nat \<lceil>y\<rceil>" using m' down by simp
      then show thesis using that [OF _ _ True] by blast
    next
      case False
      then show thesis using m' down by simp
    qed
  qed
  note kr = rng [OF k(2)]
  have "0 \<le> k" using kr by (meson order_trans zero_le_numeral zero_le_power)
  then have "int m = k" using k(1) by simp
  then have "(of_int k :: rat) = of_nat m" by (metis of_int_of_nat_eq)
  then have "f64_round (of_nat m * u) = x" using k(3) by (simp only:)
  moreover have "int (10 ^ (n - 1)) \<le> int m" "int m \<le> int (10 ^ n)" using kr \<open>int m = k\<close> by simp_all
  then have "10 ^ (n - 1) \<le> m" "m \<le> 10 ^ n" by (simp_all only: of_nat_le_iff)
  ultimately show ?thesis by (simp add: u_def)
qed

text \<open>Seventeen digits are enough.\<close>

lemma decimal_at_17:
  assumes x: "0 < x" "f64_round x = x"
  shows "decimal_at x 17 \<noteq> None"
proof -
  define u where "u = (10 :: rat) powi (dec_exp x + 1 - int 17)"
  define y where "y = x / u"
  have u: "0 < u" by (simp add: u_def)
  have "u * 10 ^ 16 = 10 powi dec_exp x"
    using powi_shift [of "dec_exp x + 1 - int 17" 16] by (simp add: u_def)
  then have ux: "u * 10 ^ 16 \<le> x" using dec_exp_bounds(1) [OF x(1)] by simp
  define v where "v = (2 :: rat) powi f64_exp x"
  have v: "0 < v" by (simp add: v_def)
  have pw: "2 powi (f64_exp x - 1) = v / 2" "2 powi (f64_exp x - 2) = v / 4" "2 powi (f64_exp x + 52) = v * 2 ^ 52"
    "2 powi (f64_exp x + 53) = v * 2 ^ 53"
    by (simp_all add: v_def power_int_diff power_int_add)
  define k where "k = round_half_even y"
  have "of_int k * u - x = (of_int k - y) * u" using u by (simp add: y_def left_diff_distrib)
  then have "\<bar>of_int k * u - x\<bar> = \<bar>of_int k - y\<bar> * u" using u by (simp add: abs_mult)
  also have "\<dots> \<le> 1 / 2 * u"
    using u round_half_even_error [of y] unfolding k_def by (intro mult_right_mono) auto
  finally have d: "\<bar>of_int k * u - x\<bar> \<le> u / 2" by simp
  have p: "(2 :: rat) ^ 53 = 9007199254740992" "(2 :: rat) ^ 52 = 4503599627370496"
    "(10 :: rat) ^ 16 = 10000000000000000" by simp_all
  have "f64_round (of_int k * u) = x"
  proof (rule f64_round_near [OF x])
    have "x < v * 2 ^ 53" using f64_exp_bounds(2) [OF x(1)] unfolding pw .
    then show "\<bar>of_int k * u - x\<bar> < 2 powi (f64_exp x - 1)" unfolding pw using d ux v unfolding p by linarith
    show "\<bar>of_int k * u - x\<bar> < 2 powi (f64_exp x - 2)" if "x = 2 powi (f64_exp x + 52)"
    proof -
      have "x = v * 2 ^ 52" using that unfolding pw .
      then show ?thesis unfolding pw using d ux v unfolding p by linarith
    qed
  qed
  then show ?thesis
    using round_half_even_cases [of y]
    unfolding decimal_at_def Let_def u_def [symmetric] y_def [symmetric] k_def by auto
qed

lemma shortest_decimal_sound:
  assumes x: "0 < x" "f64_round x = x"
  shows "\<exists>m n. shortest_decimal x = (m, n) \<and> 0 < n \<and>
    f64_round (of_nat m * 10 powi (dec_exp x + 1 - int n)) = x \<and> 10 ^ (n - 1) \<le> m \<and> m \<le> 10 ^ n"
proof -
  let ?ns = "filter (\<lambda>n. decimal_at x n \<noteq> None) [1..<18]"
  have "17 \<in> set ?ns" using decimal_at_17 [OF x] by (simp del: not_None_eq)
  then obtain n ns where ns: "?ns = n # ns" by (metis list.set_cases)
  then have "n \<in> set ?ns" by simp
  then obtain m where m: "decimal_at x n = Some m" "0 < n" by auto
  then have "shortest_decimal x = (m, n)" unfolding shortest_decimal_def ns by simp
  with decimal_at_sound [OF x(1) m(2,1)] m(2) show ?thesis by blast
qed

section \<open>Reading the text back\<close>

lemma is_digit_digit_char: "d < 10 \<Longrightarrow> is_digit (digit_char d)"
  by (simp add: is_digit_def byte_digit_char)

lemma digits_dec_nat: "list_all is_digit (dec_nat n)"
proof (induction n rule: dec_nat.induct)
  case (1 n)
  then show ?case by (subst dec_nat.simps) (simp add: is_digit_digit_char)
qed

lemma undec_replicate0: "undec n (replicate k CHR ''0'') = n * 10 ^ k"
  by (induction k arbitrary: n) (simp_all add: byte_def)

lemma undec_zeros: "undec 0 (replicate k CHR ''0'' @ s) = undec 0 s"
  by (simp add: undec_append undec_replicate0)

text \<open>The digits read back as a number that rounds to \<open>x\<close>.\<close>

lemma digits_exp_sound:
  assumes x: "0 < x" "f64_round x = x"
  shows "\<exists>ds e. digits_exp x = (ds, e) \<and> ds \<noteq> [] \<and> list_all is_digit ds \<and>
    f64_round (of_nat (undec 0 ds) * 10 powi (e + 1 - int (length ds))) = x \<and>
    10 ^ (length ds - 1) \<le> undec 0 ds \<and> undec 0 ds < 10 ^ length ds \<and>
    (e = dec_exp x \<or> e = dec_exp x + 1 \<and> f64_round (10 powi e) = x)"
proof -
  obtain m n where mn: "shortest_decimal x = (m, n)" "0 < n"
    "f64_round (of_nat m * 10 powi (dec_exp x + 1 - int n)) = x" "10 ^ (n - 1) \<le> m" "m \<le> 10 ^ n"
    using shortest_decimal_sound [OF x] by blast
  show ?thesis
  proof (cases "m = 10 ^ n")
    case True
    have "of_nat m * (10 :: rat) powi (dec_exp x + 1 - int n) = 10 powi (dec_exp x + 1)"
      using powi_shift [of "dec_exp x + 1 - int n" n] True by (simp add: mult.commute)
    then have "f64_round (10 powi (dec_exp x + 1)) = x" using mn(3) by simp
    moreover have "digits_exp x = (''1'', dec_exp x + 1)" by (simp add: digits_exp_def mn(1) True)
    ultimately show ?thesis by (simp add: is_digit_def byte_def add.commute)
  next
    case False
    then have "num_digits m = n" using mn by (intro num_digits_eq) simp_all
    then have len: "length (dec_nat m) = n" by (simp add: length_dec_nat)
    have "digits_exp x = (dec_nat m, dec_exp x)" by (simp add: digits_exp_def mn(1) False)
    then show ?thesis using mn False by (simp add: len undec_dec_nat digits_dec_nat)
  qed
qed

lemma split_digits:
  assumes "list_all is_digit ip" and "rest = [] \<or> \<not> is_digit (hd rest)"
  shows "takeWhile is_digit (ip @ rest) = ip" and "dropWhile is_digit (ip @ rest) = rest"
proof -
  have "takeWhile is_digit rest = [] \<and> dropWhile is_digit rest = rest"
    using assms(2) by (cases rest) auto
  moreover have "\<forall>c \<in> set ip. is_digit c" using assms(1) by (simp add: list_all_iff)
  ultimately show "takeWhile is_digit (ip @ rest) = ip" "dropWhile is_digit (ip @ rest) = rest"
    by (simp_all add: takeWhile_append2 dropWhile_append2)
qed

lemma point_not_digit: "\<not> is_digit CHR ''.''"
  by (simp add: is_digit_def byte_def)

text \<open>A decimal number: integer part, and a point with the fraction when there is one.\<close>

definition decimal_text :: "string \<Rightarrow> string \<Rightarrow> string" where
  "decimal_text ip fp = ip @ (if fp = [] then [] else CHR ''.'' # fp)"

lemma parse_decimal_text:
  assumes "list_all is_digit ip" and "list_all is_digit fp" and "ip \<noteq> []"
  shows "parse_unsigned (decimal_text ip fp) = Some (f64_round (of_nat (undec 0 (ip @ fp)) / 10 ^ length fp))"
proof -
  let ?rest = "if fp = [] then [] else CHR ''.'' # fp"
  have "takeWhile is_digit (decimal_text ip fp) = ip" "dropWhile is_digit (decimal_text ip fp) = ?rest"
    unfolding decimal_text_def using split_digits [of ip ?rest] assms(1) point_not_digit by simp_all
  then show ?thesis using assms(2,3) by (simp add: parse_unsigned_def Let_def)
qed

lemma fmtF_text:
  assumes "ds \<noteq> []" and "list_all is_digit ds"
  shows "\<exists>ip fp. fmtF ds e = decimal_text ip fp \<and> ip \<noteq> [] \<and> list_all is_digit ip \<and>
    list_all is_digit fp \<and>
    of_nat (undec 0 (ip @ fp)) / 10 ^ length fp = (of_nat (undec 0 ds) * 10 powi (e + 1 - int (length ds)) :: rat)"
proof (cases "e < 0")
  case True
  let ?fp = "replicate (nat (- e - 1)) CHR ''0'' @ ds"
  have dig: "is_digit CHR ''0''" by (simp add: is_digit_def byte_def)
  have "undec 0 (''0'' @ ?fp) = undec 0 ds" using undec_zeros [of "Suc (nat (- e - 1))" ds] by simp
  moreover have "e + 1 - int (length ds) = - int (length ?fp)" using True by simp
  then have "(10 :: rat) powi (e + 1 - int (length ds)) = inverse (10 ^ length ?fp)"
    by (simp only: power_int_minus power_int_of_nat)
  ultimately have "of_nat (undec 0 (''0'' @ ?fp)) / 10 ^ length ?fp =
      (of_nat (undec 0 ds) * 10 powi (e + 1 - int (length ds)) :: rat)"
    by (simp only: divide_inverse)
  moreover have "fmtF ds e = decimal_text ''0'' ?fp" using True assms(1) by (simp add: fmtF_def decimal_text_def)
  moreover have "list_all is_digit ?fp" "list_all is_digit ''0''"
    using assms(2) dig by (auto simp: list_all_iff)
  ultimately show ?thesis by blast
next
  case False
  define k where "k = nat e + 1"
  have k: "int k = e + 1" using False by (simp add: k_def)
  have dig: "is_digit CHR ''0''" by (simp add: is_digit_def byte_def)
  show ?thesis
  proof (cases "length ds \<le> k")
    case True
    let ?ip = "ds @ replicate (k - length ds) CHR ''0''"
    have "e + 1 - int (length ds) = int (k - length ds)" using True k by simp
    then have "(10 :: rat) powi (e + 1 - int (length ds)) = 10 ^ (k - length ds)"
      by (simp only: power_int_of_nat)
    then have "of_nat (undec 0 (?ip @ [])) / 10 ^ length [] =
        (of_nat (undec 0 ds) * 10 powi (e + 1 - int (length ds)) :: rat)"
      by (simp add: undec_append undec_replicate0)
    moreover have "fmtF ds e = decimal_text ?ip []"
      using False True by (simp add: fmtF_def decimal_text_def k_def Let_def)
    moreover have "list_all is_digit ?ip" "list_all is_digit []"
      using assms(2) dig by (auto simp: list_all_iff)
    moreover have "?ip \<noteq> []" using assms(1) by simp
    ultimately show ?thesis by blast
  next
    case l: False
    have "e + 1 - int (length ds) = - int (length (drop k ds))" using l k by simp
    then have "(10 :: rat) powi (e + 1 - int (length ds)) = inverse (10 ^ length (drop k ds))"
      by (simp only: power_int_minus power_int_of_nat)
    then have "of_nat (undec 0 (take k ds @ drop k ds)) / 10 ^ length (drop k ds) =
        (of_nat (undec 0 ds) * 10 powi (e + 1 - int (length ds)) :: rat)"
      by (simp only: append_take_drop_id divide_inverse)
    moreover have "fmtF ds e = decimal_text (take k ds) (drop k ds)"
      using False l by (simp add: fmtF_def decimal_text_def k_def Let_def)
    moreover have "take k ds \<noteq> []" using assms(1) by (simp add: k_def)
    moreover have "list_all is_digit (take k ds)" "list_all is_digit (drop k ds)"
      using assms(2) by (auto simp: list_all_iff dest: in_set_takeD in_set_dropD)
    ultimately show ?thesis by blast
  qed
qed

text \<open>The part of the exponent form before the exponent.\<close>

definition fmtE_mantissa :: "string \<Rightarrow> string" where
  "fmtE_mantissa ds = decimal_text (take 1 ds) (drop 1 ds)"

lemma fmtE_eq:
  "fmtE ds e = fmtE_mantissa ds @ CHR ''e'' #
     ((if e < 0 then ''-'' else ''+'') @ (if \<bar>e\<bar> < 10 then ''0'' else []) @ dec_nat (nat \<bar>e\<bar>))"
  by (simp add: fmtE_def fmtE_mantissa_def decimal_text_def)

lemma parse_mantissa:
  assumes "ds \<noteq> []" and "list_all is_digit ds"
  shows "parse_unsigned (fmtE_mantissa ds) =
    Some (f64_round (of_nat (undec 0 ds) / 10 ^ (length ds - 1)))"
proof -
  have "list_all is_digit (take 1 ds)" "list_all is_digit (drop 1 ds)"
    using assms(2) by (auto simp: list_all_iff dest: in_set_takeD in_set_dropD)
  then have "parse_unsigned (fmtE_mantissa ds) =
      Some (f64_round (of_nat (undec 0 (take 1 ds @ drop 1 ds)) / 10 ^ length (drop 1 ds)))"
    unfolding fmtE_mantissa_def using assms(1) by (intro parse_decimal_text) simp_all
  then show ?thesis by (simp only: append_take_drop_id length_drop)
qed

text \<open>The characters of a decimal number.\<close>

lemma decimal_text_chars:
  "list_all is_digit ip \<Longrightarrow> list_all is_digit fp \<Longrightarrow> c \<in> set (decimal_text ip fp) \<Longrightarrow> is_digit c \<or> c = CHR ''.''"
  by (auto simp: decimal_text_def list_all_iff split: if_splits)

lemma decimal_text_head:
  "ip \<noteq> [] \<Longrightarrow> list_all is_digit ip \<Longrightarrow> is_digit (hd (decimal_text ip fp))"
  by (cases ip) (simp_all add: decimal_text_def)

end
