(* ===== verification/Pdcs_Scientific.thy ===== *)
theory Pdcs_Scientific
  imports Go_Decimal
begin

text \<open>
  \<open>RemoveScientificNotationFromFloat\<close> of \<open>pdcs/utils.go\<close>: the shortest text of a number is cut at its
  exponent and read back. The function returns its argument and an error when the text cannot be
  read. The lemmas show that it never does, that a number whose text has no exponent comes back
  unchanged, and that one whose text has an exponent comes back as its mantissa.
\<close>

text \<open>\<open>strings.IndexAny\<close>: the position of the first of the characters, or -1.\<close>

definition IndexAny :: "string \<Rightarrow> string \<Rightarrow> int" where
  "IndexAny s chars =
     (let k = length (takeWhile (\<lambda>c. c \<notin> set chars) s) in if k < length s then int k else -1)"

definition RemoveScientificNotationFromFloat :: "f64 \<Rightarrow> f64 \<times> go_error option" where
  "RemoveScientificNotationFromFloat x =
     (let bigNum = FormatFloat_g x;
          breakPoint = IndexAny bigNum ''Ee'';
          bigNum = (if 0 < breakPoint then take (nat breakPoint) bigNum else bigNum)
      in case ParseFloat bigNum of
           Inl err \<Rightarrow> (x, Some (WrappedError
             ''unable to remove scientific number from calculations'' err))
         | Inr result \<Rightarrow> (result, None))"

section \<open>Lemmas\<close>

definition no_exponent :: "string \<Rightarrow> bool" where
  "no_exponent s \<longleftrightarrow> CHR ''E'' \<notin> set s \<and> CHR ''e'' \<notin> set s"

lemma IndexAny_absent: "no_exponent s \<Longrightarrow> IndexAny s ''Ee'' = -1"
proof -
  assume "no_exponent s"
  then have "takeWhile (\<lambda>c. c \<notin> set ''Ee'') s = s" by (auto simp: no_exponent_def takeWhile_eq_all_conv)
  then have "length (takeWhile (\<lambda>c. c \<notin> set ''Ee'') s) = length s" by (rule arg_cong)
  then show ?thesis unfolding IndexAny_def Let_def by (simp only: less_irrefl if_False)
qed

lemma IndexAny_present: "no_exponent s \<Longrightarrow> IndexAny (s @ CHR ''e'' # t) ''Ee'' = int (length s)"
proof -
  assume "no_exponent s"
  then have "takeWhile (\<lambda>c. c \<notin> set ''Ee'') (s @ CHR ''e'' # t) = s"
    by (subst takeWhile_append2) (auto simp: no_exponent_def)
  then show ?thesis by (simp add: IndexAny_def Let_def)
qed

lemma digit_not_special:
  "is_digit c \<Longrightarrow> c \<noteq> CHR ''e'' \<and> c \<noteq> CHR ''E'' \<and> c \<noteq> CHR ''-'' \<and> c \<noteq> CHR ''+''"
proof -
  have "\<not> is_digit CHR ''e''" "\<not> is_digit CHR ''E''" "\<not> is_digit CHR ''-''" "\<not> is_digit CHR ''+''"
    by (simp_all add: is_digit_def byte_def)
  then show "is_digit c \<Longrightarrow> ?thesis" by auto
qed

lemma no_exponent_decimal:
  "list_all is_digit ip \<Longrightarrow> list_all is_digit fp \<Longrightarrow> no_exponent (decimal_text ip fp)"
  unfolding no_exponent_def using decimal_text_chars [of ip fp] digit_not_special by blast

text \<open>Reading a decimal number with an optional minus sign.\<close>

lemma ParseFloat_decimal:
  assumes "ip \<noteq> []" and "list_all is_digit ip" and "list_all is_digit fp"
  shows "ParseFloat ((if neg then ''-'' else []) @ decimal_text ip fp) =
    (let r = f64_round (of_nat (undec 0 (ip @ fp)) / 10 ^ length fp) in Inr (if neg then - r else r))"
proof -
  obtain c cs where c: "decimal_text ip fp = c # cs" "is_digit c"
  proof (cases "decimal_text ip fp")
    case Nil
    then show thesis using assms(1) by (simp add: decimal_text_def)
  next
    case (Cons c cs)
    then show thesis using that decimal_text_head [OF assms(1,2), of fp] by simp
  qed
  have p: "parse_unsigned (c # cs) = Some (f64_round (of_nat (undec 0 (ip @ fp)) / 10 ^ length fp))"
    using parse_decimal_text [OF assms(2,3,1)] c(1) by simp
  show ?thesis
    using p c digit_not_special [OF c(2)] by (simp add: ParseFloat_def Let_def)
qed

lemma no_exponent_sign: "no_exponent s \<Longrightarrow> no_exponent ((if neg then ''-'' else []) @ s)"
  by (simp add: no_exponent_def)

lemma remove_zero: "RemoveScientificNotationFromFloat 0 = (0, None)"
proof -
  have "no_exponent ''0''" by (simp add: no_exponent_def)
  moreover have "ParseFloat ''0'' = Inr 0"
    using ParseFloat_decimal [of "''0''" "[]" False] by (simp add: decimal_text_def is_digit_def byte_def)
  ultimately show ?thesis
    by (simp add: RemoveScientificNotationFromFloat_def FormatFloat_g_def IndexAny_absent)
qed

text \<open>The two cases, for the digits and the exponent of the number.\<close>

lemma remove_fixed:
  assumes x: "x \<noteq> 0" and d: "digits_exp \<bar>x\<bar> = (ds, e)" "ds \<noteq> []" "list_all is_digit ds"
    "f64_round (of_nat (undec 0 ds) * 10 powi (e + 1 - int (length ds))) = \<bar>x\<bar>"
    and e: "-4 \<le> e" "e < 6"
  shows "RemoveScientificNotationFromFloat x = (x, None)"
proof -
  obtain ip fp where t: "fmtF ds e = decimal_text ip fp" "ip \<noteq> []" "list_all is_digit ip"
    "list_all is_digit fp"
    "of_nat (undec 0 (ip @ fp)) / 10 ^ length fp = (of_nat (undec 0 ds) * 10 powi (e + 1 - int (length ds)) :: rat)"
    using fmtF_text [OF d(2,3)] by blast
  have f: "FormatFloat_g x = (if x < 0 then ''-'' else []) @ decimal_text ip fp"
    using x e by (simp add: FormatFloat_g_def d(1) t(1))
  have "IndexAny (FormatFloat_g x) ''Ee'' = -1"
    unfolding f using no_exponent_decimal [OF t(3,4)] by (intro IndexAny_absent no_exponent_sign)
  moreover have "ParseFloat (FormatFloat_g x) = Inr x"
    unfolding f ParseFloat_decimal [OF t(2-4)] t(5) d(4) by (simp add: Let_def)
  ultimately show ?thesis by (simp add: RemoveScientificNotationFromFloat_def)
qed

lemma remove_exponent:
  assumes x: "x \<noteq> 0" and d: "digits_exp \<bar>x\<bar> = (ds, e)" "ds \<noteq> []" "list_all is_digit ds"
    and e: "e < -4 \<or> 6 \<le> e"
  shows "RemoveScientificNotationFromFloat x =
    (sgn x * f64_round (of_nat (undec 0 ds) / 10 ^ (length ds - 1)), None)"
proof -
  let ?s = "if x < 0 then ''-'' else []"
  obtain t where f: "FormatFloat_g x = (?s @ fmtE_mantissa ds) @ CHR ''e'' # t"
    using x e by (simp add: FormatFloat_g_def d(1) fmtE_eq)
  have dig: "list_all is_digit (take 1 ds)" "list_all is_digit (drop 1 ds)" "take 1 ds \<noteq> []"
    using d(2,3) by (auto simp: list_all_iff dest: in_set_takeD in_set_dropD)
  have "no_exponent (?s @ fmtE_mantissa ds)"
    unfolding fmtE_mantissa_def by (intro no_exponent_sign no_exponent_decimal dig)
  then have i: "IndexAny (FormatFloat_g x) ''Ee'' = int (length (?s @ fmtE_mantissa ds))"
    unfolding f by (rule IndexAny_present)
  have pos: "0 < length (?s @ fmtE_mantissa ds)"
    using dig(3) by (simp add: fmtE_mantissa_def decimal_text_def)
  have "ParseFloat (?s @ fmtE_mantissa ds) =
      Inr (sgn x * f64_round (of_nat (undec 0 ds) / 10 ^ (length ds - 1)))"
    unfolding fmtE_mantissa_def ParseFloat_decimal [OF dig(3,1,2)] append_take_drop_id length_drop
    using x by (simp add: sgn_if Let_def)
  moreover have "take (nat (IndexAny (FormatFloat_g x) ''Ee'')) (FormatFloat_g x) = ?s @ fmtE_mantissa ds"
    unfolding i by (simp add: f)
  moreover have "0 < IndexAny (FormatFloat_g x) ''Ee''" using pos unfolding i by linarith
  ultimately show ?thesis by (simp add: RemoveScientificNotationFromFloat_def)
qed

text \<open>The decimal exponent decides which case applies.\<close>

lemma digits_exp_double:
  assumes "x \<noteq> 0" and "f64_round x = x"
  shows "\<exists>ds e. digits_exp \<bar>x\<bar> = (ds, e) \<and> ds \<noteq> [] \<and> list_all is_digit ds \<and>
    f64_round (of_nat (undec 0 ds) * 10 powi (e + 1 - int (length ds))) = \<bar>x\<bar> \<and>
    10 ^ (length ds - 1) \<le> undec 0 ds \<and> undec 0 ds < 10 ^ length ds \<and>
    (e = dec_exp \<bar>x\<bar> \<or> e = dec_exp \<bar>x\<bar> + 1 \<and> f64_round (10 powi e) = \<bar>x\<bar>)"
proof (rule digits_exp_sound)
  show "f64_round \<bar>x\<bar> = \<bar>x\<bar>"
  proof (cases "x < 0")
    case True
    have "x / 2 powi f64_exp \<bar>x\<bar> = of_int (round_half_even (x / 2 powi f64_exp \<bar>x\<bar>))"
      using assms by (metis (no_types, lifting) f64_round_def nonzero_mult_div_cancel_right
          power_int_not_zero zero_neq_numeral)
    then have "- x = of_int (- round_half_even (x / 2 powi f64_exp \<bar>x\<bar>)) * 2 powi f64_exp \<bar>- x\<bar>"
      by (simp add: field_simps)
    then have "f64_round (- x) = - x" by (rule f64_round_exact)
    then show ?thesis using True by simp
  qed (simp add: assms(2))
qed (simp add: assms(1))

lemma remove_small:
  assumes "f64_round x = x" and "1 / 1000 \<le> \<bar>x\<bar>" and "\<bar>x\<bar> < 10 ^ 6"
  shows "RemoveScientificNotationFromFloat x = (x, None)"
proof -
  have x: "x \<noteq> 0" "0 < \<bar>x\<bar>" using assms(2) by auto
  obtain ds e where d: "digits_exp \<bar>x\<bar> = (ds, e)" "ds \<noteq> []" "list_all is_digit ds"
    "f64_round (of_nat (undec 0 ds) * 10 powi (e + 1 - int (length ds))) = \<bar>x\<bar>"
    and e: "e = dec_exp \<bar>x\<bar> \<or> e = dec_exp \<bar>x\<bar> + 1 \<and> f64_round (10 powi e) = \<bar>x\<bar>"
    using digits_exp_double [OF x(1) assms(1)] by blast
  have "-3 \<le> dec_exp \<bar>x\<bar>" using assms(2) by (intro dec_exp_ge) (simp add: power_int_minus)
  moreover have "dec_exp \<bar>x\<bar> < 6" using assms(3) x(2) by (intro dec_exp_less) simp_all
  moreover have "e \<noteq> 6 \<or> e = dec_exp \<bar>x\<bar>"
  proof (rule ccontr)
    assume "\<not> (e \<noteq> 6 \<or> e = dec_exp \<bar>x\<bar>)"
    then have "f64_round (10 ^ 6) = \<bar>x\<bar>" using e by auto
    moreover have "f64_round (10 ^ 6) = 10 ^ 6" using f64_of_int_exact [of "10 ^ 6"] by (simp add: f64_of_int_def)
    ultimately show False using assms(3) by simp
  qed
  ultimately have "-4 \<le> e" "e < 6" using e by auto
  then show ?thesis using remove_fixed [OF x(1) d] by blast
qed

lemma remove_large:
  assumes "f64_round x = x" and "x \<noteq> 0" and "\<bar>x\<bar> < 1 / 100000 \<or> 10 ^ 6 \<le> \<bar>x\<bar>"
  shows "\<exists>r k. RemoveScientificNotationFromFloat x = (r, None) \<and> 1 / 2 < \<bar>r\<bar> \<and> \<bar>r\<bar> < 11 \<and>
    (k \<le> -5 \<or> 6 \<le> k) \<and> \<bar>r * 10 powi k - x\<bar> \<le> \<bar>x\<bar> / 2 ^ 51"
proof -
  obtain ds e where d: "digits_exp \<bar>x\<bar> = (ds, e)" "ds \<noteq> []" "list_all is_digit ds"
    and z: "f64_round (of_nat (undec 0 ds) * 10 powi (e + 1 - int (length ds))) = \<bar>x\<bar>"
    and m: "10 ^ (length ds - 1) \<le> undec 0 ds" "undec 0 ds < 10 ^ length ds"
    and e: "e = dec_exp \<bar>x\<bar> \<or> e = dec_exp \<bar>x\<bar> + 1 \<and> f64_round (10 powi e) = \<bar>x\<bar>"
    using digits_exp_double [OF assms(2,1)] by blast
  have ex: "e < -4 \<or> 6 \<le> e"
    using assms(3)
  proof
    assume "\<bar>x\<bar> < 1 / 100000"
    then have "dec_exp \<bar>x\<bar> < -5" using assms(2) by (intro dec_exp_less) (simp_all add: power_int_minus)
    then show ?thesis using e by auto
  next
    assume "10 ^ 6 \<le> \<bar>x\<bar>"
    then have "6 \<le> dec_exp \<bar>x\<bar>" by (intro dec_exp_ge) simp
    then show ?thesis using e by auto
  qed
  define k where "k = length ds - 1"
  have k: "length ds = Suc k" using d(2) by (simp add: k_def)
  define M where "M = (of_nat (undec 0 ds) / 10 ^ k :: rat)"
  have "(of_nat (10 ^ k) :: rat) \<le> of_nat (undec 0 ds)" "(of_nat (undec 0 ds) :: rat) < of_nat (10 ^ Suc k)"
    using m unfolding k by (simp_all only: of_nat_le_iff of_nat_less_iff diff_Suc_1)
  then have M: "1 \<le> M" "M < 10" by (simp_all add: M_def field_simps)
  have r: "RemoveScientificNotationFromFloat x = (sgn x * f64_round M, None)"
    using remove_exponent [OF assms(2) d ex] by (simp add: M_def k_def)
  have "M * 10 powi e = of_nat (undec 0 ds) * 10 powi (e - int k)"
    by (simp add: M_def power_int_diff)
  then have zM: "f64_round (M * 10 powi e) = \<bar>x\<bar>" using z by (simp add: k)
  define p where "p = (10 :: rat) powi e"
  have p: "0 < p" by (simp add: p_def)
  have r1: "\<bar>f64_round M - M\<bar> \<le> M / 2 ^ 53" using f64_round_error [of M] M by simp
  have r2: "\<bar>\<bar>x\<bar> - M * p\<bar> \<le> M * p / 2 ^ 53"
    using f64_round_error [of "M * p"] zM M p by (simp add: p_def [symmetric])
  have "f64_round M * p - M * p = (f64_round M - M) * p" by (simp add: left_diff_distrib)
  then have "\<bar>f64_round M * p - M * p\<bar> = \<bar>f64_round M - M\<bar> * p" using p by (simp only: abs_mult abs_of_pos)
  also have "\<dots> \<le> M / 2 ^ 53 * p" using r1 p by (intro mult_right_mono) auto
  finally have r3: "\<bar>f64_round M * p - M * p\<bar> \<le> M * p / 2 ^ 53" by simp
  have Mp: "0 < M * p" using M p by simp
  have c: "(2 :: rat) ^ 53 = 9007199254740992" "(2 :: rat) ^ 51 = 2251799813685248" by simp_all
  have near: "\<bar>f64_round M * p - \<bar>x\<bar>\<bar> \<le> \<bar>x\<bar> / 2 ^ 51"
    using r2 r3 Mp unfolding c by linarith
  have fM: "1 / 2 < f64_round M" "f64_round M < 11" using r1 M unfolding c by linarith+
  have "sgn x * f64_round M * p - x = sgn x * (f64_round M * p - \<bar>x\<bar>)"
    by (simp add: right_diff_distrib sgn_mult_abs mult.assoc)
  then have "\<bar>sgn x * f64_round M * p - x\<bar> \<le> \<bar>x\<bar> / 2 ^ 51"
    using near assms(2) by (simp only: abs_mult abs_sgn_eq if_False mult_1)
  moreover have "\<bar>sgn x * f64_round M\<bar> = f64_round M"
    using fM assms(2) by (simp add: abs_mult abs_sgn_eq)
  ultimately show ?thesis using r fM ex by (intro exI [of _ "sgn x * f64_round M"] exI [of _ e]) (auto simp: p_def)
qed

end
