(* ===== verification/Examples.thy ===== *)
theory Examples
  imports Scrape_Response Scrape_Race Pdcs_SizeRace Pdcs_Scientific
begin

text \<open>
  Small inputs on which the properties are applied: a container with statistics, two images, a pod,
  answers of a whole scrape, an environment in which the exporter starts.
\<close>

definition ex_vars :: label_vars where
  "ex_vars = RegisterVariableLabels True '''' False initial_label_vars"

definition ex_plain_vars :: label_vars where
  "ex_plain_vars = RegisterVariableLabels False '''' False initial_label_vars"

definition ex_container :: Container where
  "ex_container =
     \<lparr>cnt_ID = ''0123456789ab'', cnt_PodID = '''', cnt_PodName = '''', cnt_Name = ''web'',
      cnt_Labels = [(''app.kind'', ''demo'')], cnt_Image = ''docker.io/library/httpd'',
      cnt_ImageID = ''fedcba987654'', cnt_Created = 1700000000, cnt_Started = 1700000001,
      cnt_Exited = -1, cnt_ExitCode = 0, cnt_Ports = ''0.0.0.0:80->80/tcp'', cnt_State = 2,
      cnt_Health = -1, cnt_RwSize = 10, cnt_RootFsSize = 20\<rparr>"

definition ex_bad_container :: Container where
  "ex_bad_container = ex_container\<lparr>cnt_Labels := [(''a.b'', ''1''), (''a_b'', ''2'')]\<rparr>"

definition ex_image :: Image where
  "ex_image =
     \<lparr>img_ID = ''fedcba987654'', img_ParentID = '''', img_Repository = ''httpd'',
      img_Tag = ''latest'', img_Created = 1690000000, img_Size = 1000, img_Digest = ''sha256:aa'',
      img_Labels = []\<rparr>"

definition ex_labelled_image :: Image where
  "ex_labelled_image =
     ex_image\<lparr>img_ID := ''0000cba98765'', img_Labels := [(''maintainer'', ''me''), (''os'', ''linux'')]\<rparr>"

definition ex_pod :: Pod where
  "ex_pod =
     \<lparr>pod_ID = ''aaaabbbbcccc'', pod_InfraID = ''ddddeeeeffff'', pod_Name = ''p'', pod_Labels = [],
      pod_Created = 1700000000, pod_State = 4, pod_NumOfContainers = 2\<rparr>"

definition ex_volume :: Volume where
  "ex_volume = \<lparr>vol_Name = ''data'', vol_Driver = ''local'', vol_Created = 1700000000, vol_MountPoint = ''/data''\<rparr>"

definition ex_answers :: pdcs_answers where
  "ex_answers =
     \<lparr>ans_Containers = Ok [ex_container], ans_ContainersStats = Inr [],
      ans_DiskUsage = Inr zero_usage, ans_Images = Inr [ex_image, ex_labelled_image],
      ans_Networks = Inl (EngineError ''network''), ans_Pods = Inr [ex_pod],
      ans_System = Ok \<lparr>sys_Podman = ''5'', sys_Runtime = ''crun'', sys_Conmon = ''2'', sys_Buildah = ''1''\<rparr>,
      ans_Volumes = Inr [ex_volume]\<rparr>"

definition ex_collectors :: "(string \<times> Collector) list" where
  "ex_collectors =
     [(''container'', containerCollector NewContainerStatsCollector),
      (''image'', imageCollector NewImageStatsCollector),
      (''network'', networkCollector NewNetworkStatsCollector),
      (''volume'', volumeCollector (NewVolumeStatsCollector ex_vars))]"

definition ex_environment :: environment where
  "ex_environment =
     \<lparr>env_validPattern = (\<lambda>p. p \<noteq> []), env_conflict = (\<lambda>p q. p = q), env_match = (\<lambda>p path. p = path),
      env_route = (\<lambda>ps path. Some (if path \<in> set ps then path else ''/'')), env_containerEngineErr = None, env_imageEngineErr = None, env_sizes = Inr [],
      env_df = Inl (EngineError ''df''), env_serve = None\<rparr>"

lemma ex_container_ok: "container_ok ex_vars ex_container" "\<not> container_ok ex_vars ex_bad_container"
  by code_simp+

lemma ex_image_ok: "image_ok ex_vars ex_image" "image_ok ex_vars ex_labelled_image"
  by code_simp+

lemma ex_collectors_built: "collectors_built ex_vars ex_collectors"
proof -
  have "list_all valid_utf8 (map fst ex_collectors)" by code_simp
  then show ?thesis
    by (simp add: collectors_built_def ex_collectors_def NewContainerStatsCollector_def
        NewImageStatsCollector_def)
qed

lemma ex_collectors_ok: "list_all (\<lambda>(_, c). collector_ok ex_vars ex_answers c) ex_collectors"
  by (simp add: ex_collectors_def ex_answers_def rows_or_def ex_container_ok ex_image_ok)
     code_simp

text \<open>The options without arguments.\<close>

definition ex_options :: exporterOptions where
  "ex_options =
     \<lparr>debug = False, webListen = ['':9882''], webMaxRequests = 40, webTelemetryPath = ''/metrics'',
      webDisableExporterMetrics = False, webConfigFile = '''', cacheDuration = 3600000000000,
      containerStatsTimeout = 1000000000, enableAll = False, opt_storeLabels = False,
      whiteListedLabels = '''', enableImages = False, enablePods = False, enableVolumes = False,
      enableNetworks = False, enableSystem = False, enableDiskUsage = False, enhanceMetrics = False\<rparr>"

lemma ex_options: "parseOptions default_flags = Inr ex_options"
  by (simp add: parseOptions_def getter_defs wrap_error_def default_flags_def root_flags_def
      ex_options_def maxRequest_def default_cacheDuration_def defaultContainerStatsTimeout_def)

lemma ex_options_start:
  "pattern_accepted ex_environment (webTelemetryPath ex_options) \<and>
   env_containerEngineErr ex_environment = None \<and> env_imageEngineErr ex_environment = None \<and> 0 <s cacheDuration ex_options"
  by (simp add: ex_options_def ex_environment_def pattern_accepted_def) code_simp

lemma ex_mux: "mux_documented ex_environment"
  by (auto simp: mux_documented_def ex_environment_def)

lemma ex_options_wanted: "filter (wanted ex_options) collector_names = [''container'']"
  by (simp add: collector_names_def ex_options_def)

text \<open>The answers suit every collector.\<close>

lemma ex_all_ok: "collector_ok (label_options ex_options) ex_answers c"
proof -
  have "container_ok (label_options ex_options) ex_container"
    "image_ok (label_options ex_options) ex_image" "image_ok (label_options ex_options) ex_labelled_image"
    "pod_ok (label_options ex_options) ex_pod" "volume_ok ex_volume"
    "system_ok \<lparr>sys_Podman = ''5'', sys_Runtime = ''crun'', sys_Conmon = ''2'', sys_Buildah = ''1''\<rparr>"
    by code_simp+
  then show ?thesis by (cases c) (simp_all add: ex_answers_def rows_or_def)
qed

text \<open>The exporter starts without arguments, and the answers above are scraped.\<close>

lemma ex_started:
  "\<exists>h. ex_listening (snd (Start ex_environment default_flags initial_state)) \<and>
     ex_handler (snd (Start ex_environment default_flags initial_state)) = Some h \<and> handler_for ex_options h"
  using Start_outcome [OF ex_options, of ex_environment] ex_options_start by (auto simp: serves_def)

lemma ex_scrape:
  "\<exists>h cs' ms. ex_handler (snd (Start ex_environment default_flags initial_state)) = Some h \<and>
     ex_listening (snd (Start ex_environment default_flags initial_state)) \<and>
     Collect (label_options ex_options) ex_answers [5] (sh_collectors (unfilteredHandler h))
       (Collected cs' ms) \<and> length ms \<le> 1000"
proof -
  obtain h where h: "ex_listening (snd (Start ex_environment default_flags initial_state))"
    "ex_handler (snd (Start ex_environment default_flags initial_state)) = Some h"
    "handler_for ex_options h"
    using ex_started by blast
  let ?cs = "sh_collectors (unfilteredHandler h)"
  have cs: "map fst ?cs = [''container'']" "collectors_built (label_options ex_options) ?cs"
    using h(3) ex_options_wanted by (simp_all add: handler_for_def)
  have ok: "list_all (\<lambda>(_, c). collector_ok (label_options ex_options) ex_answers c) ?cs"
    using ex_all_ok by (auto simp: list_all_iff)
  obtain c where c: "?cs = [(''container'', c)]" using cs(1) by auto
  obtain r where r: "Collect (label_options ex_options) ex_answers [5] ?cs r"
    using Collect_finishes [of "[5]" ?cs] c by auto
  then obtain cs' ms where ms: "r = Collected cs' ms"
    "mset (map sample ms) = mset (expected_samples (label_options ex_options) ex_answers [5] ?cs)"
    using Collect_complete [OF cs(2) ok r] by blast
  have "well_named (''container'', c)" using Start_handler_named [OF ex_options h(2)] c by simp
  then obtain c' where "c = containerCollector c'" by (cases c) (auto simp: well_named_def)
  moreover have "length ms = length (expected_samples (label_options ex_options) ex_answers [5] ?cs)"
    using ms(2) by (metis length_map size_mset)
  ultimately have "length ms \<le> 1000"
    by (simp add: c expected_samples_def scrape_samples_def ex_answers_def rows_or_def
        container_samples_def container_state_samples_def container_usage_samples_def Let_def
        split: option.split)
  then show ?thesis using h r ms(1) by blast
qed

text \<open>An image the engine reports, and the entry made of it.\<close>

definition ex_summary :: image_summary where
  "ex_summary =
     \<lparr>is_ID = ''fedcba9876543210'', is_ParentId = '''', is_RepoTags = [''httpd:latest'', ''httpd:latest''],
      is_Created = 1690000000, is_Size = 1000, is_Digest = ''sha256:aa'', is_Labels = []\<rparr>"

definition ex_parse :: ref_parser where
  "ex_parse r = (if r = ''httpd:latest'' then Inr (TaggedRef ''httpd'' ''latest'') else Inl (EngineError ''parse''))"

text \<open>A finite set of keys has a hash that tells them apart.\<close>

lemma finite_inj_word:
  assumes "finite A" and "card A \<le> 2 ^ 64"
  shows "\<exists>h :: 'a \<Rightarrow> uint64. inj_on h A"
proof -
  obtain f where f: "bij_betw f A {0..<card A}" using ex_bij_betw_finite_nat [OF assms(1)] by blast
  have "inj_on (word_of_nat :: nat \<Rightarrow> uint64) {0..<card A}"
  proof (rule inj_onI)
    fix x y
    assume "x \<in> {0..<card A}" "y \<in> {0..<card A}" "(word_of_nat x :: uint64) = word_of_nat y"
    then have "unat (word_of_nat x :: uint64) = unat (word_of_nat y :: uint64)"
      "x < 2 ^ 64" "y < 2 ^ 64" using assms(2) by auto
    then show "x = y" by (simp add: unat_of_nat)
  qed
  then have "inj_on (word_of_nat \<circ> f :: 'a \<Rightarrow> uint64) A"
    using f by (metis bij_betw_def comp_inj_on)
  then show ?thesis by blast
qed

lemma metrics_have_hash:
  assumes "length ms \<le> 2000"
  shows "\<exists>h :: string \<Rightarrow> uint64. inj_on h (metric_key ` set ms)"
proof (rule finite_inj_word)
  have "card (metric_key ` set ms) \<le> card (set ms)" by (rule card_image_le) simp
  also have "\<dots> \<le> length ms" by (rule card_length)
  finally show "card (metric_key ` set ms) \<le> 2 ^ 64" using assms by simp
qed simp

section \<open>Inputs of the report functions\<close>

definition ex_two_labels :: Container where
  "ex_two_labels = ex_container\<lparr>cnt_Labels := [(''tier'', ''back''), (''app'', ''web'')]\<rparr>"

definition ex_stats :: container_stats where
  "ex_stats =
     \<lparr>cs_ContainerID = ''0123456789abcdef'', cs_Name = ''web'', cs_PIDs = 3, cs_CPUNano = 1500000001,
      cs_CPUSystemNano = 7, cs_MemUsage = 1, cs_MemLimit = 2,
      cs_Network = [(''eth0'', \<lparr>RxBytes = 1, RxDropped = 0, RxErrors = 0, RxPackets = 1, TxBytes = 2,
        TxDropped = 0, TxErrors = 0, TxPackets = 1\<rparr>)],
      cs_BlockInput = 0, cs_BlockOutput = 0\<rparr>"

definition ex_listed :: list_container where
  "ex_listed =
     \<lparr>lc_ID = ''0123456789abcdef'', lc_Pod = '''', lc_PodName = '''', lc_Names = [''web''],
      lc_Image = ''httpd'', lc_ImageID = ''fedcba9876543210'', lc_Created = 1700000000,
      lc_StartedAt = 1700000001, lc_ExitedAt = -62135596800, lc_ExitCode = 0, lc_State = ''running'',
      lc_Status = '''', lc_Ports = [], lc_Labels = [], lc_Size = None\<rparr>"

definition ex_df :: df_report where
  "ex_df =
     \<lparr>df_ImagesSize = 100,
      df_Images = [\<lparr>dfi_ImageID = ''a'', dfi_UniqueSize = 30, dfi_Containers = 1\<rparr>],
      df_Containers = [\<lparr>dfc_Status = ''running'', dfc_RWSize = 5\<rparr>, \<lparr>dfc_Status = ''exited'', dfc_RWSize = 7\<rparr>],
      df_Volumes = []\<rparr>"

end
