(* ===== verification/Spec2Isabelle.thy ===== *)
theory Spec2Isabelle
  imports Examples
begin

text \<open>
  A model of prometheus-podman-exporter, a Go program that answers scrapes of Prometheus with
  metrics about the containers, images, pods, networks, volumes, versions and disk usage that
  podman reports.

  \<^bold>\<open>The program and its model.\<close> \<open>main.go\<close> and \<open>cmd/root.go\<close> parse the command line and call
  \<open>exporter.Start\<close>, which enables collectors, prepares the handler of the metrics path, starts the
  event streamer and the tickers, and serves. A request runs \<open>Collect\<close>: one goroutine for each
  enabled collector calls its \<open>Update\<close>, which asks package \<open>pdcs\<close> for a report and sends one
  metric after another; the vendored client library gathers them. The theories follow the
  packages.

  \<^item> Foundations: \<open>Go_Strings\<close> (strings as byte lists with Go's decoding of runes, \<open>ToLower\<close>,
    \<open>Split\<close>, \<open>Join\<close>, \<open>TrimSpace\<close>), \<open>Go_Float\<close> (\<open>float64\<close> as the rationals it represents with one
    rounding for each operation; the values here are far from its largest), \<open>Go_Decimal\<close> (the
    decimal text of a double and its reading), \<open>Go_Runtime\<close> (errors, panics, the result \<open>outcome\<close>
    of a call, 64-bit integers as words), \<open>List_Facts\<close> (the first element of every key),
    \<open>Reachability\<close> (reachable states; the locales \<open>inductive_invariant\<close> and \<open>simulation\<close>).
  \<^item> Package \<open>pdcs\<close>: \<open>Pdcs_Utils\<close> and \<open>Pdcs_Scientific\<close> (\<open>utils.go\<close>), \<open>Pdcs_Container\<close>
    (\<open>container.go\<close>, with the cache of sizes, one operation at a time), \<open>Pdcs_SizeRace\<close> (listings
    and refreshes interleaved on that cache), \<open>Pdcs_Cache\<close> (the contract of a cached report, a
    locale), \<open>Pdcs_Image\<close> (\<open>image.go\<close>), \<open>Pdcs_DiskUsage\<close> (\<open>disk_usage.go\<close>), \<open>Pdcs_Inventory\<close>
    (\<open>pod.go\<close>, \<open>network.go\<close>, \<open>volume.go\<close>, \<open>system.go\<close>), \<open>Pdcs_Events\<close> (\<open>events.go\<close> as a step
    relation: the engine's steps and the program's).
  \<^item> The client library: \<open>Prom_Client\<close> (descriptors and constant metrics) and \<open>Prom_Registry\<close>
    (\<open>processMetric\<close>, \<open>checkMetricConsistency\<close>, the receive loop of \<open>Gather\<close>) and \<open>Prom_Normalize\<close>
    (\<open>NormalizeMetricFamilies\<close> with its unstable sorts; the locale \<open>key_sort\<close>, a comparison of
    keys in a linear order, for metrics, label pairs and names), \<open>Prom_Gatherers\<close>
    (\<open>Gatherers.Gather\<close>, which merges registries, and the answer of the handler of \<open>promhttp\<close>).
  \<^item> Package \<open>collector\<close>: \<open>Coll_Labels\<close> (\<open>utils.go\<close> and \<open>getExtraLabelsAndValues\<close>), \<open>Coll_Core\<close>
    (the assignments and sends of an \<open>Update\<close> as a list of instructions that runs on the shared
    struct; the locales \<open>row_collector\<close> and \<open>sampled_collector\<close>), \<open>Coll_Container\<close>, \<open>Coll_Image\<close>,
    \<open>Coll_Pod\<close>, \<open>Coll_Static\<close> (network, volume, system, disk usage; the locale
    \<open>static_collector\<close>), \<open>Coll_Registry\<close> (\<open>collector.go\<close>: the tables, \<open>NewPodmanCollector\<close>,
    \<open>execute\<close>, and \<open>Collect\<close> as any merge of what the goroutines send), \<open>Metric_Table\<close> (the table
    of all metrics).
  \<^item> Packages \<open>exporter\<close>, \<open>cmd\<close>: \<open>Exporter_Options\<close> (the flags and \<open>parseOptions\<close>),
    \<open>Exporter_Handler\<close> (\<open>handler.go\<close>, the server as a step relation), \<open>Exporter_Start\<close> (\<open>Start\<close>
    with the log level, the two registered handlers and the index page, \<open>SetupRegistry\<close>, the
    tickers, \<open>preRun\<close>, \<open>run\<close>, \<open>Execute\<close>, \<open>main\<close>).
  \<^item> Compositions: \<open>Scrape_Gather\<close> and \<open>Scrape_Clean\<close> (scrapes at the registry), \<open>Scrape_Race\<close>
    (overlapping scrapes on the struct of a collector; the locale \<open>shared_collector\<close>, for
    containers, images and pods), \<open>Exporter_Scrape\<close> (scrapes of a started exporter),
    \<open>Scrape_Response\<close> (what a request is answered, as a function of the samples), \<open>Examples\<close>
    (inputs).

  \<^bold>\<open>What is shown.\<close> A scrape finishes with exactly the samples that describe the reports, or
  crashes exactly when a report has an unacceptable object (C1 to C6, C25, C39), independently of
  the order of map iterations (C9) and goroutines; after a start the wanted collectors are scraped
  and their successes reported (C3, C35); every metric is of the table and the registry keeps them
  all without an error when the objects are told apart (C7, C8, C36 to C38), and the answer to the
  request is then one value that the reports and the own metrics determine (C40). The reports are the last
  answers of the engine (C16, C18, C19), under concurrent refreshes too (C22), with the field
  values the code computes and their bounds (C10, C11, C13, C14, C17, C21, C24); what becomes of
  refused, late and failed statistics is C15. The streamer keeps the image report up to date, does
  not spin and loses no image event, as a scrape shows (C26 to C29); the server refines a counting
  semaphore (C32). Several theorems state where the code does not do what it seems to mean:
  containers stay hidden after one failed refresh (C20), a listing that overlaps a refresh can end
  the process (C23), a malformed event can crash the exporter (C27), overlapping scrapes can crash
  it through the shared structs (C30 for exactly when, C31 for when every scrape stays as it is
  alone; all handlers share them, C34), filters are ignored and escape the limit (C33, C34), the
  index page links to a path that need not be that of the metrics (C35), large numbers lose their
  exponent (C12).

  \<^bold>\<open>Parameters and hypotheses.\<close> What podman answers is an argument: lists, errors, the choice the
  \<open>select\<close> of \<open>getStat\<close> takes, the reference parser of the image library (\<open>ref_parser\<close>). The hash
  of the registry is a parameter that must tell the series of one scrape apart. Of \<open>net/http\<close> the
  routes use what its documentation says (\<open>mux_documented\<close>: the pattern \<open>/\<close> conflicts with itself
  and matches what no other pattern does). \<open>sort.Sort\<close> is any sorted permutation. A Go map is an
  association list in the order of an iteration. Durations the clock measures are arguments. No
  definition uses fuel: the loops are recursions on lists, and what may run forever (streamer,
  server, refreshes) is a step relation. The shortest text of a double is searched up to 17
  digits, which is proved enough.

  \<^bold>\<open>Not modelled.\<close> The output of the log has no effect on the rest. Infinities, NaN and the sign
  of zero are not values of the model of \<open>float64\<close>; no code produces them. Command-line parsing
  itself (cobra) is its result: an assignment of typed values to flags, or an error; its help and
  completion commands are left out. The metrics of the process and of the Go runtime are any
  counters, gauges and untyped metrics (the one summary of the Go collector is left out), the
  encoding of the response, TLS and systemd sockets are in vendored code the sources only call.
  Two accesses to a Go map that overlap without the runtime noticing have no meaning in Go; reads
  and writes of the model are atomic, or caught between the two ends of a write.
\<close>

section \<open>A whole scrape\<close>

text \<open>
  C1. A scrape in which every reported object is acceptable finishes without a crash, whatever the
  order in which the collectors' goroutines send; the receiver gets exactly the samples that the
  reports describe, each collector's duration and success included, none twice and none missing;
  the structs stay as built.
\<close>

theorem scrape_complete:
  assumes "collectors_built v cs" and "list_all (\<lambda>(_, c). collector_ok v a c) cs"
    and "length ds = length cs"
  shows "(\<exists>r. Collect v a ds cs r) \<and>
    (\<forall>r. Collect v a ds cs r \<longrightarrow>
       (\<exists>cs' ms. r = Collected cs' ms \<and>
          mset (map sample ms) = mset (expected_samples v a ds cs) \<and>
          map fst cs' = map fst cs \<and> collectors_built v cs'))"
  using Collect_finishes [OF assms(3)] Collect_complete [OF assms(1,2)] by blast

theorem scrape_complete_witness:
  "\<exists>cs' ms. Collect ex_vars ex_answers [1, 2, 3, 4] ex_collectors (Collected cs' ms) \<and>
     mset (map sample ms) = mset (expected_samples ex_vars ex_answers [1, 2, 3, 4] ex_collectors)"
proof -
  have "length [1, 2, 3, 4 :: int64] = length ex_collectors" by (simp add: ex_collectors_def)
  then show ?thesis
    using scrape_complete [OF ex_collectors_built ex_collectors_ok] by blast
qed

text \<open>
  C2. A scrape crashes the process exactly when some collector's answers contain an object it
  cannot turn into metrics (or make the code dereference nil): the panic is raised in a goroutine
  nobody recovers.
\<close>

theorem scrape_crash_iff:
  assumes "collectors_built v cs" and "length ds = length cs"
  shows "(\<exists>p. Collect v a ds cs (ProcessCrash p)) \<longleftrightarrow>
    (\<exists>(name, c) \<in> set cs. \<not> collector_ok v a c)"
  using Collect_crash_iff [OF assms] by (auto simp: list_all_iff)

theorem scrape_crash_iff_witness:
  "\<exists>p. Collect ex_vars (ex_answers\<lparr>ans_Containers := Ok [ex_bad_container]\<rparr>) [1, 2, 3, 4] ex_collectors
     (ProcessCrash p)"
proof -
  have "length [1, 2, 3, 4 :: int64] = length ex_collectors" by (simp add: ex_collectors_def)
  moreover have "(''container'', containerCollector NewContainerStatsCollector) \<in> set ex_collectors"
    by (simp add: ex_collectors_def)
  moreover have "\<not> collector_ok ex_vars (ex_answers\<lparr>ans_Containers := Ok [ex_bad_container]\<rparr>)
      (containerCollector NewContainerStatsCollector)"
    using ex_container_ok(2) by (simp add: ex_answers_def rows_or_def)
  ultimately show ?thesis
    using scrape_crash_iff [OF ex_collectors_built] by fast
qed

text \<open>
  C3. After a successful start every wanted collector is scraped, and whatever the engine answers
  (as long as no object is unacceptable) the scrape reports for each of them a success sample: 1
  when its update returned nil and 0 when it returned an error.
\<close>

theorem started_exporter_reports_success:
  assumes "parseOptions fs = Inr opts"
    and "ex_listening (snd (Start env fs initial_state))"
    and "ex_handler (snd (Start env fs initial_state)) = Some h"
    and "list_all (\<lambda>(_, c). collector_ok (label_options opts) a c) (sh_collectors (unfilteredHandler h))"
    and "Collect (label_options opts) a ds (sh_collectors (unfilteredHandler h)) r"
  shows "map fst (sh_collectors (unfilteredHandler h)) = filter (wanted opts) collector_names \<and>
    (\<exists>cs' ms. r = Collected cs' ms \<and>
       (\<forall>(name, c) \<in> set (sh_collectors (unfilteredHandler h)).
          (''podman_scrape_collector_success'', GaugeValue, [(''collector'', name)],
           if collector_error a c = None then 1 else 0) \<in> set (map sample ms)))"
proof -
  have h: "handler_for opts h" using started_handler [OF assms(1-3)] ..
  then have built: "collectors_built (label_options opts) (sh_collectors (unfilteredHandler h))"
    by (simp add: handler_for_def)
  obtain cs' ms where r: "r = Collected cs' ms"
    "mset (map sample ms) =
       mset (expected_samples (label_options opts) a ds (sh_collectors (unfilteredHandler h)))"
    using Collect_complete [OF built assms(4,5)] by blast
  have "length ds = length (sh_collectors (unfilteredHandler h))"
    using assms(5) by (auto elim: Collect.cases)
  moreover have "set (map sample ms) =
      set (expected_samples (label_options opts) a ds (sh_collectors (unfilteredHandler h)))"
    using r(2) by (rule mset_eq_setD)
  ultimately have "\<forall>(name, c) \<in> set (sh_collectors (unfilteredHandler h)).
      (''podman_scrape_collector_success'', GaugeValue, [(''collector'', name)],
       if collector_error a c = None then 1 else 0) \<in> set (map sample ms)"
    using expected_successes by metis
  then show ?thesis using r(1) h by (auto simp: handler_for_def)
qed

theorem started_exporter_reports_success_witness:
  "\<exists>h cs' ms. ex_handler (snd (Start ex_environment default_flags initial_state)) = Some h \<and>
     Collect (label_options ex_options) ex_answers [5] (sh_collectors (unfilteredHandler h))
       (Collected cs' ms) \<and>
     (\<forall>(name, c) \<in> set (sh_collectors (unfilteredHandler h)).
        (''podman_scrape_collector_success'', GaugeValue, [(''collector'', name)],
         if collector_error ex_answers c = None then 1 else 0) \<in> set (map sample ms))"
proof -
  obtain h where h: "ex_listening (snd (Start ex_environment default_flags initial_state))"
    "ex_handler (snd (Start ex_environment default_flags initial_state)) = Some h"
    "handler_for ex_options h"
    using ex_started by blast
  have cs: "map fst (sh_collectors (unfilteredHandler h)) = [''container'']"
    "collectors_built (label_options ex_options) (sh_collectors (unfilteredHandler h))"
    using h(3) ex_options_wanted by (simp_all add: handler_for_def)
  have ok: "list_all (\<lambda>(_, c). collector_ok (label_options ex_options) ex_answers c)
      (sh_collectors (unfilteredHandler h))"
    using cs(2) ex_all_ok by (auto simp: collectors_built_def list_all_iff)
  obtain r where r: "Collect (label_options ex_options) ex_answers [5] (sh_collectors (unfilteredHandler h)) r"
    using Collect_finishes [of "[5]" "sh_collectors (unfilteredHandler h)"] cs(1)
    by (metis length_map list.size(3,4))
  from started_exporter_reports_success [OF ex_options h(1,2) ok r] show ?thesis
    using h(2) r by blast
qed

section \<open>Objects with labels\<close>

text \<open>
  C4. The container collector: an update on a fresh struct panics exactly when some container is
  not acceptable (a kept label whose sanitized name is refused, repeated, or a default name; or a
  label value that is not UTF-8), and otherwise emits, container by container, the info sample, the
  eight state samples and, where statistics were reported, the fifteen usage samples.
\<close>

theorem container_update_correct:
  "if list_all (container_ok v) reps
   then \<exists>c ms. run_update NewContainerStatsCollector (containerCollector_Update v (Ok reps) (Inr stats)) =
          (c, ms, Ok None) \<and> map sample ms = concat (map (container_samples v stats) reps)
   else \<exists>c ms p. run_update NewContainerStatsCollector (containerCollector_Update v (Ok reps) (Inr stats)) =
          (c, ms, Panic p)"
  using container_scrape.run_correct [of NewContainerStatsCollector v reps stats]
  by (simp add: containerCollector_Update_def container_loop_eq)

text \<open>C5. The image collector: the same, with the three samples of every entry of the report.\<close>

theorem image_update_correct:
  "if list_all (image_ok v) reps
   then \<exists>c ms. run_update NewImageStatsCollector (imageCollector_Update v (Inr reps)) = (c, ms, Ok None) \<and>
          map sample ms = concat (map (image_samples v) reps)
   else \<exists>c ms p. run_update NewImageStatsCollector (imageCollector_Update v (Inr reps)) = (c, ms, Panic p)"
  using image_scrape.run_correct [of NewImageStatsCollector v reps]
  by (simp add: imageCollector_Update_def image_loop_eq)

text \<open>C6. The pod collector: the same, with the four samples of every pod.\<close>

theorem pod_update_correct:
  "if list_all (pod_ok v) reps
   then \<exists>c ms. run_update NewPodStatsCollector (podCollector_Update v (Inr reps)) = (c, ms, Ok None) \<and>
          map sample ms = concat (map (pod_samples v) reps)
   else \<exists>c ms p. run_update NewPodStatsCollector (podCollector_Update v (Inr reps)) = (c, ms, Panic p)"
  using pod_scrape.run_correct [of NewPodStatsCollector v reps]
  by (simp add: podCollector_Update_def pod_loop_eq)

text \<open>
  C7. After any history of answers of the image engine that ends with a list, a scrape of the image
  collector whose entries are acceptable and free of zero bytes passes the registry without an
  error, provided that metrics are enhanced or no two entries agree in identifier, repository and
  tag: the deduplication of the report makes every series unique. \<open>h\<close> is the registry's hash, which
  must tell the keys of this scrape apart.
\<close>

theorem image_scrape_has_no_duplicates:
  assumes "Images (fold (updateImages parse) (hist @ [Inr reports]) initial_imageRep) = Inr imgs"
    and "enhanceAllMetrics v \<or> distinct (map image_name_triple imgs)"
    and "list_all (image_ok v) imgs" and "list_all nul_free imgs"
    and "run_update NewImageStatsCollector (imageCollector_Update v (Inr imgs)) = (c, ms, Ok None)"
    and "inj_on h (metric_key ` set ms)"
  shows "gather_errs (Gather h ms) = []"
proof -
  have imgs: "imgs = dedupImages (concat (map (images_of_summary parse) reports))"
    using assms(1) image_report.recovers_from_errors by simp
  have "dedupImages imgs = imgs" by (simp add: imgs dedupImages_first_by first_by_idem)
  then have "images_distinct v imgs"
    using dedup_label_values [OF assms(4)] assms(2) by (simp add: images_distinct_def)
  moreover have "ms = program_metrics image_value_type (concat (map (image_blocks v) imgs))"
    using image_rows.run_rows_ok [OF assms(3), of NewImageStatsCollector] assms(5)
    by (auto simp: imageCollector_Update_def image_loop_eq)
  ultimately show ?thesis using images_gathered [OF assms(3) _ _ assms(6)] by simp
qed

theorem image_scrape_has_no_duplicates_witness:
  "\<exists>c ms h. run_update NewImageStatsCollector (imageCollector_Update ex_vars (Inr [ex_image])) =
       (c, ms, Ok None) \<and> ms \<noteq> [] \<and> gather_errs (Gather h ms) = []"
proof -
  have ok: "list_all (image_ok ex_vars) [ex_image]" "list_all nul_free [ex_image]"
    by code_simp+
  obtain c ms where r: "run_update NewImageStatsCollector
       (imageCollector_Update ex_vars (Inr [ex_image])) = (c, ms, Ok None)"
    "map sample ms = image_samples ex_vars ex_image"
    using image_scrape.run_correct [of NewImageStatsCollector ex_vars "[ex_image]"] ok(1)
    by (auto simp: imageCollector_Update_def image_loop_eq simp del: image_loop.simps)
  have three: "length ms = 3"
    using arg_cong [OF r(2), of length] by (simp add: image_samples_def Let_def)
  then obtain h :: "string \<Rightarrow> uint64" where h: "inj_on h (metric_key ` set ms)"
    using metrics_have_hash [of ms] by auto
  have "distinct (map image_name_triple [ex_image])" by simp
  moreover have "Images (fold (updateImages ex_parse) ([Inl (EngineError ''x'')] @ [Inr [ex_summary]])
      initial_imageRep) = Inr [ex_image]" by code_simp
  ultimately have "gather_errs (Gather h ms) = []"
    using image_scrape_has_no_duplicates [OF _ _ ok r(1) h] by blast
  then show ?thesis using r(1) three by auto
qed




section \<open>Reports\<close>

text \<open>
  C10. The code of a state is its position in the documented list, whatever its letter case, and
  -1 for every other text; so codes of containers lie in -1..7, of their health in -1..2, of pods
  in -1..6.
\<close>

theorem state_codes_documented:
  "(\<forall>i < 8. conReporter_state (container_states ! i) = int i) \<and>
   (\<forall>i < 3. conReporter_health (container_healths ! i) = int i) \<and>
   (\<forall>i < 7. podReporter_status (pod_states ! i) = int i) \<and>
   (conReporter_state s = -1 \<longleftrightarrow> go_to_lower s \<notin> set container_states) \<and>
   (conReporter_health s = -1 \<longleftrightarrow> go_to_lower s \<notin> set container_healths) \<and>
   (podReporter_status s = -1 \<longleftrightarrow> go_to_lower s \<notin> set pod_states) \<and>
   conReporter_state s \<in> {-1..7} \<and> conReporter_health s \<in> {-1..2} \<and> podReporter_status s \<in> {-1..6}"
proof -
  have len: "length container_states = 8" "length container_healths = 3" "length pod_states = 7"
    by (simp_all add: container_states_def container_healths_def pod_states_def)
  have dist: "distinct container_states" "distinct container_healths" "distinct pod_states"
    by (simp_all add: container_states_def container_healths_def pod_states_def)
  have low: "\<forall>i < 8. go_to_lower (container_states ! i) = container_states ! i"
    "\<forall>i < 3. go_to_lower (container_healths ! i) = container_healths ! i"
    "\<forall>i < 7. go_to_lower (pod_states ! i) = pod_states ! i"
    by (code_simp, code_simp, code_simp)
  show ?thesis
    using len dist low code_of_bounds [of container_states "go_to_lower s"]
      code_of_bounds [of container_healths "go_to_lower s"] code_of_bounds [of pod_states "go_to_lower s"]
    by (auto simp: state_codes code_of_unknown_iff code_of_nth)
qed

theorem state_codes_documented_witness:
  "conReporter_state (container_states ! 2) = 2 \<and> conReporter_state ''RUNNING'' = 2 \<and>
   conReporter_state ''zombie'' = -1"
proof -
  have "conReporter_state (container_states ! 2) = 2"
    using state_codes_documented [of "''zombie''"] by force
  moreover have "conReporter_state ''RUNNING'' = 2" by code_simp
  moreover have "go_to_lower ''zombie'' \<notin> set container_states" by code_simp
  ultimately show ?thesis using state_codes_documented [of "''zombie''"] by blast
qed

text \<open>
  C11. The ports of a container are shown as the published ports joined by a comma and a space: the
  slice that removes the last separator never goes out of bounds, an empty host address is shown as
  0.0.0.0, and the last port of a range is the arithmetic one modulo 2^16.
\<close>

theorem ports_text:
  "conReporter_ports ports = Ok (go_join '', '' (concat (map port_entries ports)))"
  by (rule conReporter_ports_join)



text \<open>
  C13. The CPU seconds of a container are its nanoseconds divided by 10^9, up to the two roundings
  of double precision: the relative error is below 3/2^53. Below 2^53 nanoseconds (about 104 days
  of CPU time) only the division rounds.
\<close>

theorem cpu_seconds_error:
  "\<bar>st_CPU (stat_of r) - of_int (uint (cs_CPUNano r)) / 10 ^ 9\<bar>
     \<le> 3 * (of_int (uint (cs_CPUNano r)) / 10 ^ 9) / 2 ^ 53 \<and>
   (uint (cs_CPUNano r) \<le> 2 ^ 53 \<longrightarrow>
     \<bar>st_CPU (stat_of r) - of_int (uint (cs_CPUNano r)) / 10 ^ 9\<bar>
       \<le> of_int (uint (cs_CPUNano r)) / 10 ^ 9 / 2 ^ 53)"
proof -
  let ?n = "of_int (uint (cs_CPUNano r)) :: rat"
  let ?a = "f64_of_int (uint (cs_CPUNano r))"
  have st: "st_CPU (stat_of r) = f64_round (?a / 10 ^ 9)"
    by (simp add: stat_of_def f64_div_def f64_of_uint64_def nano_def)
  have n: "0 \<le> ?n" by (simp only: of_int_0_le_iff uint_nonnegative)
  have a: "\<bar>?a - ?n\<bar> \<le> ?n / 2 ^ 53"
    using f64_round_error [of ?n] unfolding f64_of_int_def abs_of_nonneg [OF n] .
  have d: "\<bar>f64_round (?a / 10 ^ 9) - ?a / 10 ^ 9\<bar> \<le> \<bar>?a / 10 ^ 9\<bar> / 2 ^ 53"
    by (rule f64_round_error)
  have "\<bar>f64_round (?a / 10 ^ 9) - ?n / 10 ^ 9\<bar> \<le> 3 * (?n / 10 ^ 9) / 2 ^ 53"
    using a d n by (rule two_roundings)
  moreover have "\<bar>f64_round (?a / 10 ^ 9) - ?n / 10 ^ 9\<bar> \<le> ?n / 10 ^ 9 / 2 ^ 53"
    if "uint (cs_CPUNano r) \<le> 2 ^ 53"
  proof -
    have "?a = ?n" using that by (intro f64_of_int_exact) simp
    then show ?thesis using d n by simp
  qed
  ultimately show ?thesis by (simp add: st)
qed

theorem cpu_seconds_error_witness:
  "\<bar>st_CPU (stat_of ex_stats) - of_int (uint (cs_CPUNano ex_stats)) / 10 ^ 9\<bar>
     \<le> of_int (uint (cs_CPUNano ex_stats)) / 10 ^ 9 / 2 ^ 53"
proof -
  have "uint (cs_CPUNano ex_stats) \<le> 2 ^ 53" by (simp add: ex_stats_def)
  then show ?thesis using cpu_seconds_error [of ex_stats] by blast
qed

text \<open>
  C14. The label text of a network determines its labels and their order when no key or value has a
  comma in it and no key an equals sign.
\<close>

theorem network_labels_roundtrip:
  assumes "ls \<noteq> []" and "list_all separable_label ls"
  shows "map parse_label (go_split CHR '','' (listPrintReports_labels ls)) = ls"
  using assms by (rule parse_labels)

theorem network_labels_roundtrip_witness:
  "map parse_label (go_split CHR '','' (listPrintReports_labels [(''env'', ''a=b''), (''team'', '''')])) =
     [(''env'', ''a=b''), (''team'', '''')]"
proof -
  have "list_all separable_label [(''env'', ''a=b''), (''team'', '''')]" by code_simp
  then show ?thesis by (intro network_labels_roundtrip) simp
qed

text \<open>
  C15. What happens to the statistics of the containers. When the engine refuses them or the
  deadline passes first, the update sends nothing and returns that error; when a report is received,
  whatever its own error says, every container has the usage samples of the first statistics whose
  identifier begins with its own, if there are any.
\<close>

theorem statistics_outcome:
  "run_update c (containerCollector_Update v (Ok reps) (ContainersStats (Some e) ev)) = (c, [], Ok (Some e)) \<and>
   run_update c (containerCollector_Update v (Ok reps) (ContainersStats None CtxDone)) =
     (c, [], Ok (Some ErrDeadline)) \<and>
   getContainerStat i (map stat_of (sr_Stats r)) =
     map_option stat_of (find (\<lambda>s. take 12 (cs_ContainerID s) = i) (sr_Stats r)) \<and>
   (if list_all (container_ok v) reps
    then \<exists>c' ms. run_update NewContainerStatsCollector
           (containerCollector_Update v (Ok reps) (ContainersStats None (Received r))) = (c', ms, Ok None) \<and>
         map sample ms = concat (map (container_samples v (map stat_of (sr_Stats r))) reps)
    else \<exists>c' ms p. run_update NewContainerStatsCollector
           (containerCollector_Update v (Ok reps) (ContainersStats None (Received r))) = (c', ms, Panic p))"
  using container_scrape.run_correct [of NewContainerStatsCollector v reps "map stat_of (sr_Stats r)"]
    getContainerStat_find [of i "sr_Stats r"]
  by (simp add: ContainersStats_def getStat_def containerCollector_Update_def container_loop_eq)

text \<open>
  C16. After any history of refreshes a scrape sees the last answer of the engine: its error, or the
  summary of its report in closed form; before the first refresh it sees zeros.
\<close>

theorem disk_usage_last_answer:
  "DiskUsageSummary (fold updateDiskUsage hist initial_diskUsageRep) =
     (if hist = [] then Inr zero_usage
      else case last hist of
        Inl e \<Rightarrow> Inl e
      | Inr r \<Rightarrow> Inr
          \<lparr>ImagesSize = df_ImagesSize r,
           ImagesReclaimable = df_ImagesSize r - sum_list (map dfi_UniqueSize
             (filter (\<lambda>i. 0 <s dfi_Containers i) (first_by dfi_ImageID (df_Images r)))),
           ContainersSize = sum_list (map dfc_RWSize (df_Containers r)),
           ContainersReclaimable = sum_list (map dfc_RWSize
             (filter (\<lambda>c. dfc_Status c \<noteq> ''running'') (df_Containers r))),
           VolumesSize = sum_list (map dfv_Size (df_Volumes r)),
           VolumesReclaimable = sum_list (map dfv_ReclaimableSize (df_Volumes r))\<rparr>)"
  by (cases "last hist") (simp_all add: disk_report.read_from_init summarizeDiskUsage_eq)



section \<open>Reports and the size cache\<close>

text \<open>
  C18. After any history of answers of the image engine a scrape sees the last one: its error, or
  the entries of its images without the repeated ones; before the first answer there are none.
\<close>

theorem image_report_last_answer:
  "Images (fold (updateImages parse) hist initial_imageRep) =
     (if hist = [] then Inr []
      else case last hist of
        Inl e \<Rightarrow> Inl e
      | Inr reports \<Rightarrow> Inr (first_by image_key (concat (map (images_of_summary parse) reports))))"
  by (cases "last hist") (simp_all add: image_report.read_from_init dedupImages_first_by)

text \<open>
  C19. Refreshing the size cache never panics once \<open>SetupRegistry\<close> has made its map. Whatever the
  engine answered, the size of an identifier is the one reported last, and an identifier ever
  reported is never forgotten; the error is clear only when no refresh ever failed.
\<close>

theorem size_cache_after_refreshes:
  "\<exists>c m. refresh_all hist (SetupRegistry_cache initial_size_cache) = Ok c \<and> cache c = Some m \<and>
     (\<forall>k. m k = map_option size_of_container (find (\<lambda>r. take 12 (lc_ID r) = k) (rev (reported hist)))) \<and>
     dom m = (\<lambda>r. take 12 (lc_ID r)) ` set (reported hist) \<and>
     (cacheError c = None \<longleftrightarrow> list_all (Not \<circ> isl) hist)"
proof -
  let ?m = "map_of (rev (map (\<lambda>r. (getID (lc_ID r), size_of_container r)) (reported hist)))"
  have "refresh_all hist (SetupRegistry_cache initial_size_cache) =
      Ok \<lparr>cacheError = last_error hist None, cache = Some ?m\<rparr>"
    using refresh_all_eq [of "SetupRegistry_cache initial_size_cache" Map.empty hist]
    by (simp add: SetupRegistry_cache_def initial_size_cache_def)
  moreover have "\<forall>k. ?m k = map_option size_of_container
      (find (\<lambda>r. take 12 (lc_ID r) = k) (rev (reported hist)))"
    by (simp only: map_of_rev_find getID_take) simp
  moreover have "dom ?m = (\<lambda>r. take 12 (lc_ID r)) ` set (reported hist)"
    by (auto simp: dom_map_of_conv_image_fst getID_take image_iff)
  ultimately show ?thesis by (auto simp: last_error_None)
qed

text \<open>
  C20. One failed refresh hides the containers for good: whatever the engine answers later, to the
  refreshes and to the listing, the list of containers is empty and no error, the collector sends
  nothing, and the scrape reports its success.
\<close>

theorem failed_refresh_hides_containers:
  "\<exists>c. refresh_all (hist1 @ Inl e # hist2) (SetupRegistry_cache initial_size_cache) = Ok c \<and>
     Containers (Inr reports) c = Ok [] \<and>
     run_update coll (containerCollector_Update v (Containers (Inr reports) c) (Inr stats)) = (coll, [], Ok None)"
proof -
  let ?hist = "hist1 @ Inl e # hist2"
  obtain c where c: "refresh_all ?hist (SetupRegistry_cache initial_size_cache) = Ok c"
    "cacheError c = last_error ?hist None"
    using refresh_all_eq [of "SetupRegistry_cache initial_size_cache" Map.empty ?hist]
    by (simp add: SetupRegistry_cache_def initial_size_cache_def)
  have "\<not> list_all (Not \<circ> isl) ?hist" by simp
  then have "cacheError c \<noteq> None" using c(2) last_error_None by metis
  then have "Containers (Inr reports) c = Ok []" by (simp add: Containers_def)
  then show ?thesis
    using c(1) by (simp add: containerCollector_Update_def run_update_def)
qed

text \<open>
  C21. Without a failed refresh the listing has one entry for each container of the engine, in its
  order and field by field; a container without a name makes it panic.
\<close>

theorem containers_listed:
  assumes "cacheError c = None"
  shows "Containers (Inr reports) c =
    (if list_all (\<lambda>r. lc_Names r \<noteq> []) reports
     then Ok (map (listed_container (cache c)) reports) else Panic (IndexOutOfRange 0 0))"
  using assms by (rule Containers_eq)

theorem containers_listed_witness:
  "Containers (Inr [ex_listed]) initial_size_cache = Ok [listed_container None ex_listed] \<and>
   cnt_ID (listed_container None ex_listed) = ''0123456789ab'' \<and>
   Containers (Inr [ex_listed, ex_listed\<lparr>lc_Names := []\<rparr>]) initial_size_cache = Panic (IndexOutOfRange 0 0)"
proof -
  have none: "cacheError initial_size_cache = None" "cache initial_size_cache = None"
    by (simp_all add: initial_size_cache_def)
  have ex: "lc_Names ex_listed \<noteq> []" "cnt_ID (listed_container None ex_listed) = ''0123456789ab''"
    by (simp_all add: ex_listed_def listed_container_def Let_def)
  show ?thesis
    using containers_listed [OF none(1), of "[ex_listed]"] none(2) ex
      containers_listed [OF none(1), of "[ex_listed, ex_listed\<lparr>lc_Names := []\<rparr>]"]
    by simp
qed

text \<open>
  C22. A scrape reads the size cache after it has released its lock. However its loop interleaves
  with refreshes and other scrapes, it ends with one entry for each reported container, with the
  sizes the cache had at some moment since the loop began, and later entries never see an earlier
  state of the cache; when no size was stored meanwhile the entries are those of the atomic
  listing. Whenever the lock is free the cache is the one the refreshes leave when they run alone.
\<close>

theorem size_cache_reads:
  assumes "reach race_init race_step s" and "ra_readers s i = InLoop reports [] cs k"
  shows "(\<exists>js. sorted js \<and> set js \<subseteq> {k..<length (ra_hist s)} \<and> length js = length reports \<and>
      cs = map2 (\<lambda>j rep. listed_container (Some (ra_hist s ! j)) rep) js reports) \<and>
    (length (ra_hist s) = Suc k \<longrightarrow> cs = map (listed_container (cache (ra_cache s))) reports) \<and>
    (ra_updater s = UpdIdle \<longrightarrow>
      refresh_all (ra_answers s) (SetupRegistry_cache initial_size_cache) = Ok (ra_cache s))"
proof -
  note inv = size_cache.reach_inv [OF assms(1), unfolded race_inv_def]
  note rd = reach_read_from [OF assms]
  have "cs = map (listed_container (cache (ra_cache s))) reports" if "length (ra_hist s) = Suc k"
    using read_from_current [of "ra_hist s" reports cs] rd inv that by simp
  then show ?thesis using rd inv by (auto simp: read_from_def)
qed

theorem size_cache_reads_witness:
  "\<exists>s. reach race_init race_step s \<and>
     ra_readers s 0 = InLoop [ex_listed] [] [listed_container (cache (ra_cache s)) ex_listed] 0"
proof -
  let ?s = "set_reader 0 (InLoop [ex_listed] [] [listed_container (Some (\<lambda>_. None)) ex_listed] 0) race_start"
  have s: "reach race_init race_step ?s" by (rule listing_run) (simp add: ex_listed_def)
  have r: "ra_readers ?s 0 = InLoop [ex_listed] [] [listed_container (Some (\<lambda>_. None)) ex_listed] 0"
    by simp
  have "length (ra_hist ?s) = Suc 0" by (simp add: race_start_def)
  then have "[listed_container (Some (\<lambda>_. None)) ex_listed] =
      map (listed_container (cache (ra_cache ?s))) [ex_listed]"
    using size_cache_reads [OF s r] by blast
  with r have "ra_readers ?s 0 = InLoop [ex_listed] [] [listed_container (cache (ra_cache ?s)) ex_listed] 0"
    by (simp only: list.map)
  with s show ?thesis by blast
qed

text \<open>
  C23. Reading without the lock can end the process: for any containers a scrape reports and any
  sizes a refresh reports, a scrape that overlaps the refresh can find the map in the middle of a
  write, which the runtime turns into a fatal error. This happens only so: in every reachable state
  with that error a refresh is inside a write and a scrape is in its loop.
\<close>

theorem size_cache_fatal:
  assumes "reports \<noteq> []" and "sizes \<noteq> []"
  shows "(\<exists>s. reach race_init race_step s \<and> ra_status s = ConcurrentMapAccess \<and>
      ra_readers s 0 = InLoop [] reports [] 0 \<and> ra_answers s = [Inr sizes]) \<and>
    (\<forall>s. reach race_init race_step s \<longrightarrow> ra_status s = ConcurrentMapAccess \<longrightarrow>
      (\<exists>cnt rest. ra_updater s = UpdInWrite cnt rest) \<and>
      (\<exists>i ds rep reps cs k. ra_readers s i = InLoop ds (rep # reps) cs k))"
proof -
  have "(\<exists>cnt rest. ra_updater s = UpdInWrite cnt rest) \<and>
      (\<exists>i ds rep reps cs k. ra_readers s i = InLoop ds (rep # reps) cs k)"
    if "reach race_init race_step s" "ra_status s = ConcurrentMapAccess" for s
    using size_cache.reach_inv [OF that(1)] that(2) unfolding race_inv_def by blast
  then show ?thesis using fatal_run [OF assms] by blast
qed

theorem size_cache_fatal_witness:
  "\<exists>s. reach race_init race_step s \<and> ra_status s = ConcurrentMapAccess \<and>
     ra_readers s 0 = InLoop [] [ex_listed] [] 0"
  using size_cache_fatal [of "[ex_listed]" "[ex_listed]"] by auto

section \<open>Texts\<close>

text \<open>
  C24. A sanitized label has one character for each rune of the label, each of \<open>[a-zA-Z0-9_]\<close>;
  sanitizing it again changes nothing; the client accepts it as a label name unless it is empty or
  starts with two underscores.
\<close>

theorem sanitized_label_names:
  "list_all name_char (sanitizeLabelName s) \<and> length (sanitizeLabelName s) = length (go_runes s) \<and>
   sanitizeLabelName (sanitizeLabelName s) = sanitizeLabelName s \<and>
   (checkLabelName (sanitizeLabelName s) \<longleftrightarrow> s \<noteq> [] \<and> take 2 (sanitizeLabelName s) \<noteq> ''__'')"
  using sanitizeLabelName_chars
  by (simp add: length_sanitizeLabelName sanitizeLabelName_id checkLabelName_sanitize)

text \<open>
  C25. Two different kept labels of a container that sanitize to the same name make the update
  panic, wherever the container stands in the list.
\<close>

theorem label_collision_panics:
  assumes "rep \<in> set reps" and "(l1, x1) \<in> set (cnt_Labels rep)" and "(l2, x2) \<in> set (cnt_Labels rep)"
    and "l1 \<noteq> l2" and "sanitizeLabelName l1 = sanitizeLabelName l2"
    and "keeps_label v containerDefaultLabels l1" and "keeps_label v containerDefaultLabels l2"
  shows "\<exists>c ms p. run_update NewContainerStatsCollector (containerCollector_Update v (Ok reps) (Inr stats)) =
    (c, ms, Panic p)"
proof -
  let ?names = "map (\<lambda>(label, _). sanitizeLabelName label) (kept v containerDefaultLabels (cnt_Labels rep))"
  have "(l1, x1) \<in> set (kept v containerDefaultLabels (cnt_Labels rep))"
    "(l2, x2) \<in> set (kept v containerDefaultLabels (cnt_Labels rep))"
    using assms by (auto simp: kept_def)
  then have "\<not> distinct ?names"
    using assms(4,5) unfolding distinct_map inj_on_def by fastforce
  then have "\<not> container_ok v rep" by (auto simp: container_ok_def extras_ok_def)
  then have "\<not> list_all (container_ok v) reps" using assms(1) by (auto simp: list_all_iff)
  then show ?thesis
    using container_scrape.run_correct [of NewContainerStatsCollector v reps stats]
    by (simp add: containerCollector_Update_def container_loop_eq)
qed

theorem label_collision_panics_witness:
  "\<exists>c ms p. run_update NewContainerStatsCollector
     (containerCollector_Update ex_vars (Ok [ex_container, ex_bad_container]) (Inr [])) = (c, ms, Panic p)"
proof (rule label_collision_panics)
  show "ex_bad_container \<in> set [ex_container, ex_bad_container]" by simp
  show "(''a.b'', ''1'') \<in> set (cnt_Labels ex_bad_container)" "(''a_b'', ''2'') \<in> set (cnt_Labels ex_bad_container)"
    by (simp_all add: ex_bad_container_def)
  show "''a.b'' \<noteq> ''a_b''" by simp
  show "sanitizeLabelName ''a.b'' = sanitizeLabelName ''a_b''" by code_simp
  show "keeps_label ex_vars containerDefaultLabels ''a.b''" "keeps_label ex_vars containerDefaultLabels ''a_b''"
    by code_simp+
qed

section \<open>The event streamer\<close>

text \<open>
  C26. In every reachable state of the streamer, whatever the interleaving of its goroutines with
  the engine, the image report is the one that the answers received so far determine, at most one
  result is buffered, a reader that asks for a new round has drained its closed channel; without
  image updates the engine is never asked for images and the streamer never crashes.
\<close>

theorem streamer_invariant:
  assumes "reach (stream_init parse u) (stream_step parse u) s"
  shows "es_images s = fold (updateImages parse) (es_answers s) initial_imageRep \<and>
    (es_answers s \<noteq> [] \<longleftrightarrow> u) \<and> length (es_buffer s) \<le> 1 \<and>
    (es_reader s = Restarting \<longrightarrow> es_closed s \<and> es_buffer s = []) \<and>
    (\<forall>p. es_status s = Crashed p \<longrightarrow> u \<and> p = NilPointerDereference)"
  using event_stream.reach_inv [OF assms] by (simp add: stream_inv_def)

theorem streamer_invariant_witness:
  "Images (es_images (refresh_images ex_parse (Inr [ex_summary]) (first_round initial_imageRep))) = Inr [ex_image]"
proof -
  let ?s = "refresh_images ex_parse (Inr [ex_summary]) (first_round initial_imageRep)"
  have "stream_init ex_parse True ?s" by (auto simp: stream_init_def)
  then have "es_images ?s = fold (updateImages ex_parse) (es_answers ?s) initial_imageRep"
    using streamer_invariant [OF reach_init] by blast
  moreover have "es_answers ?s = [Inr [ex_summary]]" by (simp add: refresh_images_def first_round_def)
  moreover have "Images (fold (updateImages ex_parse) [Inr [ex_summary]] initial_imageRep) = Inr [ex_image]"
    by code_simp
  ultimately show ?thesis by simp
qed

text \<open>
  C27. The streamer can crash the process exactly when image updates are on: a result that carries
  an error has no event, and the reader looks at the type of the event.
\<close>

theorem streamer_crashes_iff_updates:
  "(\<exists>s. reach (stream_init parse u) (stream_step parse u) s \<and> es_status s = Crashed NilPointerDereference)
     \<longleftrightarrow> u"
proof
  assume "\<exists>s. reach (stream_init parse u) (stream_step parse u) s \<and> es_status s = Crashed NilPointerDereference"
  then show u using event_stream.reach_inv [of parse u] by (auto simp: stream_inv_def)
next
  assume u
  define r where "r = \<lparr>rr_Event = None, rr_Error = Some (EngineError ''malformed'')\<rparr>"
  define s0 where "s0 = refresh_images parse (Inr []) (first_round initial_imageRep)"
  have s0: "stream_init parse u s0" "es_status s0 = Running" "\<not> es_closed s0" "es_buffer s0 = []"
    "es_reader s0 = Reading"
    using \<open>u\<close> by (auto simp: s0_def stream_init_def refresh_images_def first_round_def)
  let ?s = "s0\<lparr>es_buffer := [r]\<rparr>"
  let ?t = "?s\<lparr>es_buffer := [], es_status := Crashed NilPointerDereference\<rparr>"
  have "stream_step parse u s0 ?s" using s0 by (intro by_source source_send)
  moreover have "stream_step parse u ?s ?t"
    using s0 \<open>u\<close> by (intro by_program reader_crash) (auto simp: wants_update_def r_def)
  ultimately have "reach (stream_init parse u) (stream_step parse u) ?t"
    using reach_init [of "stream_init parse u", OF s0(1)] reach_step by meson
  moreover have "es_status ?t = Crashed NilPointerDereference" by simp
  ultimately show "\<exists>s. reach (stream_init parse u) (stream_step parse u) s \<and>
      es_status s = Crashed NilPointerDereference"
    by blast
qed

text \<open>
  C28. The streamer never spins: its own steps terminate from every state, and one is possible
  exactly as long as the process lives and the reader is not just waiting for the engine.
\<close>

theorem streamer_settles:
  "wfP (own_step parse u)\<inverse>\<inverse> \<and>
   ((\<exists>t. own_step parse u s t) \<longleftrightarrow> es_status s = Running \<and> \<not> waiting s)"
  using own_steps_terminate own_step_stuck_iff by blast

text \<open>
  C29. An image event that has arrived is never lost: once the streamer has settled and is alive, it
  has asked the engine for the images again, and every scrape until the next event shows the last of
  these answers: its error, or the samples of its entries without the repeated ones.
\<close>

theorem image_event_refreshes:
  assumes "reach (stream_init parse True) (stream_step parse True) s"
    and "es_buffer s = [r]" and "rr_Event r = Some ImageEvent"
    and "(own_step parse True)\<^sup>*\<^sup>* s t" and "waiting t" and "es_status t = Running"
  shows "\<exists>later. later \<noteq> [] \<and> es_answers t = es_answers s @ later \<and>
    (case last later of
       Inl e \<Rightarrow> run_update c (imageCollector_Update v (Images (es_images t))) = (c, [], Ok (Some e))
     | Inr reports \<Rightarrow>
         (let imgs = first_by image_key (concat (map (images_of_summary parse) reports)) in
          list_all (image_ok v) imgs \<longrightarrow>
            (\<exists>c' ms. run_update NewImageStatsCollector (imageCollector_Update v (Images (es_images t))) =
               (c', ms, Ok None) \<and> map sample ms = concat (map (image_samples v) imgs))))"
proof -
  obtain later where later: "es_answers t = es_answers s @ later"
    using own_steps_answers [OF assms(4)] by (auto simp: prefix_def)
  have "later \<noteq> []"
    using image_event_answered [OF assms] later by auto
  have "reach (stream_init parse True) (stream_step parse True) t"
    using own_steps_reach [OF assms(4,1)] .
  then have "es_images t = fold (updateImages parse) (es_answers s @ later) initial_imageRep"
    using event_stream.reach_inv later by (auto simp: stream_inv_def)
  then have report: "Images (es_images t) =
      map_sum id (\<lambda>reports. dedupImages (concat (map (images_of_summary parse) reports))) (last later)"
    using \<open>later \<noteq> []\<close> by (simp add: image_report.read_history del: fold_append)
  show ?thesis
  proof (intro exI [of _ later] conjI)
    show "case last later of
       Inl e \<Rightarrow> run_update c (imageCollector_Update v (Images (es_images t))) = (c, [], Ok (Some e))
     | Inr reports \<Rightarrow>
         (let imgs = first_by image_key (concat (map (images_of_summary parse) reports)) in
          list_all (image_ok v) imgs \<longrightarrow>
            (\<exists>c' ms. run_update NewImageStatsCollector (imageCollector_Update v (Images (es_images t))) =
               (c', ms, Ok None) \<and> map sample ms = concat (map (image_samples v) imgs)))"
      using image_scrape.run_correct [of NewImageStatsCollector v]
      by (cases "last later")
         (simp_all add: report imageCollector_Update_def image_loop_eq dedupImages_first_by Let_def)
  qed (use later \<open>later \<noteq> []\<close> in simp_all)
qed

theorem image_event_refreshes_witness:
  "\<exists>s t c ms. reach (stream_init ex_parse True) (stream_step ex_parse True) s \<and> es_answers s = [Inr []] \<and>
     (own_step ex_parse True)\<^sup>*\<^sup>* s t \<and>
     run_update NewImageStatsCollector (imageCollector_Update ex_vars (Images (es_images t))) = (c, ms, Ok None) \<and>
     map sample ms = image_samples ex_vars ex_image"
proof -
  let ?r = "\<lparr>rr_Event = Some ImageEvent, rr_Error = None\<rparr>"
  let ?i = "refresh_images ex_parse (Inr []) (first_round initial_imageRep)"
  let ?s = "?i\<lparr>es_buffer := [?r]\<rparr>"
  let ?t = "refresh_images ex_parse (Inr [ex_summary]) (?s\<lparr>es_buffer := []\<rparr>)"
  have init: "stream_init ex_parse True ?i" by (auto simp: stream_init_def)
  have s0: "es_status ?i = Running" "\<not> es_closed ?i" "es_buffer ?i = []"
    "es_reader ?i = Reading" "es_errs ?i = []"
    by (simp_all add: refresh_images_def first_round_def)
  have "stream_step ex_parse True ?i ?s" using s0 by (intro by_source source_send)
  then have s: "reach (stream_init ex_parse True) (stream_step ex_parse True) ?s"
    using reach_init [of "stream_init ex_parse True", OF init] reach_step by meson
  have "own_step ex_parse True ?s ?t"
    using s0 by (intro reader_update) (auto simp: wants_update_def)
  then have t: "(own_step ex_parse True)\<^sup>*\<^sup>* ?s ?t" by blast
  have end_state: "waiting ?t" "es_status ?t = Running" "es_answers ?t = [Inr [], Inr [ex_summary]]"
    "es_answers ?s = [Inr []]"
    using s0 by (simp_all add: waiting_def refresh_images_def first_round_def)
  have "first_by image_key (concat (map (images_of_summary ex_parse) [ex_summary])) = [ex_image]"
    "image_ok ex_vars ex_image"
    by code_simp+
  then obtain c ms where "run_update NewImageStatsCollector (imageCollector_Update ex_vars (Images (es_images ?t))) =
      (c, ms, Ok None)" "map sample ms = image_samples ex_vars ex_image"
    using image_event_refreshes [OF s _ _ t end_state(1,2), of ?r NewImageStatsCollector ex_vars] end_state(3,4)
    by (auto simp: Let_def)
  then show ?thesis using s t end_state(4) by blast
qed

section \<open>Overlapping scrapes\<close>

text \<open>
  C30. Scrapes overlap on the struct of a collector. Two scrapes whose objects are all acceptable,
  so that each alone succeeds, can crash the exporter under some interleaving of their instructions
  exactly when an object of the one keeps a different number of labels than an object of the other:
  then a send of the one finds the descriptor the other has just stored. This holds for the
  container, the image and the pod collector, whatever their structs contained before.
\<close>

theorem overlapping_scrapes_crash:
  assumes "list_all (container_ok v) cs1" and "list_all (container_ok v) cs2"
    and "list_all (image_ok v) is1" and "list_all (image_ok v) is2"
    and "list_all (pod_ok v) ps1" and "list_all (pod_ok v) ps2"
  shows "((\<exists>zs. merges [container_loop v st1 [''id'', ''pod_id'', ''pod_name''] cs1,
             container_loop v st2 [''id'', ''pod_id'', ''pod_name''] cs2] zs \<and>
           snd (snd (run_instrs c zs)) \<noteq> None) \<longleftrightarrow>
       (\<exists>r1 \<in> set cs1. \<exists>r2 \<in> set cs2. length (kept v containerDefaultLabels (cnt_Labels r1)) \<noteq>
          length (kept v containerDefaultLabels (cnt_Labels r2)))) \<and>
    ((\<exists>zs. merges [image_loop v imageDefaultLabels is1, image_loop v imageDefaultLabels is2] zs \<and>
           snd (snd (run_instrs i zs)) \<noteq> None) \<longleftrightarrow>
       (\<exists>r1 \<in> set is1. \<exists>r2 \<in> set is2. length (kept v imageDescDefaultLabels (img_Labels r1)) \<noteq>
          length (kept v imageDescDefaultLabels (img_Labels r2)))) \<and>
    ((\<exists>zs. merges [pod_loop v podDefaultLabels ps1, pod_loop v podDefaultLabels ps2] zs \<and>
           snd (snd (run_instrs p zs)) \<noteq> None) \<longleftrightarrow>
       (\<exists>r1 \<in> set ps1. \<exists>r2 \<in> set ps2. length (kept v podDescDefaultLabels (pod_Labels r1)) \<noteq>
          length (kept v podDescDefaultLabels (pod_Labels r2))))"
  using container_overlap_crash_iff [OF assms(1,2)] image_overlap_crash_iff [OF assms(3,4)]
    pod_overlap_crash_iff [OF assms(5,6)]
  by (intro conjI)

theorem overlapping_scrapes_crash_witness:
  "\<exists>zs. merges [image_loop ex_vars imageDefaultLabels [ex_image],
       image_loop ex_vars imageDefaultLabels [ex_image, ex_labelled_image]] zs \<and>
     snd (snd (run_instrs NewImageStatsCollector zs)) \<noteq> None"
proof -
  have "\<exists>r1 \<in> set [ex_image]. \<exists>r2 \<in> set [ex_image, ex_labelled_image].
      length (kept ex_vars imageDescDefaultLabels (img_Labels r1)) \<noteq>
      length (kept ex_vars imageDescDefaultLabels (img_Labels r2))"
    by code_simp
  moreover have "list_all (image_ok ex_vars) [ex_image]"
    "list_all (image_ok ex_vars) [ex_image, ex_labelled_image]"
    using ex_image_ok by simp_all
  ultimately show ?thesis
    by (intro overlapping_scrapes_crash [of _ "[]" "[]" _ _ "[]" "[]",
          THEN conjunct2, THEN conjunct1, THEN iffD2])
       simp_all
qed



section \<open>Serving and starting\<close>



text \<open>
  C33. Exactly which loads a serving exporter can reach: at most the configured limit of scrapes
  without a filter (any number when it is not positive), together with any number of scrapes with a
  filter, which the limit does not bound.
\<close>

theorem reachable_loads:
  assumes "tables_wf v t"
  shows "running ` {s. reach (\<lambda>s. tables_wf v t \<and> serve_init v disable maxReq t s) (serve_step v) s} =
    {(n, m). sint maxReq \<le> 0 \<or> int n \<le> sint maxReq}"
proof -
  let ?init = "\<lambda>s. tables_wf v t \<and> serve_init v disable maxReq t s"
  obtain h logged t' where h: "newHandler v disable maxReq t = Ok (h, logged, t')"
    using newHandler_ok [OF assms, of disable maxReq] by auto
  let ?s = "\<lparr>srv_handler = h, srv_tables = t', srv_running = 0, srv_filtered = 0\<rparr>"
  have "?init ?s" using h assms by (auto simp: serve_init_def)
  then have s: "reach ?init (serve_step v) ?s" by (rule reach_init)
  have start: "running ?s = (0, 0)" by (simp add: running_def)
  show ?thesis
  proof (intro equalityI subsetI)
    fix x :: "nat \<times> nat"
    assume "x \<in> running ` {s. reach ?init (serve_step v) s}"
    then obtain u where "reach ?init (serve_step v) u" "x = running u" by blast
    then have "reach (\<lambda>a. a = (0, 0)) (limit_step (sint maxReq)) x" using limited.reach_abs by simp
    then show "x \<in> {(n, m). sint maxReq \<le> 0 \<or> int n \<le> sint maxReq}"
      using limit.reach_inv [of "sint maxReq" x] by (cases x) auto
  next
    fix x :: "nat \<times> nat"
    assume "x \<in> {(n, m). sint maxReq \<le> 0 \<or> int n \<le> sint maxReq}"
    then obtain n m where x: "x = (n, m)" "0 < sint maxReq \<longrightarrow> int n \<le> sint maxReq" by (cases x) auto
    obtain u where "reach ?init (serve_step v) u" "running u = x"
      using loads_reached [OF s serving.reach_inv [OF s] start x(2), of m] x(1) by blast
    then show "x \<in> running ` {s. reach ?init (serve_step v) s}" by blast
  qed
qed

theorem reachable_loads_witness:
  "(1, 7) \<in> running ` {s. reach (\<lambda>s. tables_wf ex_vars init_tables \<and> serve_init ex_vars False 1 init_tables s)
     (serve_step ex_vars) s} \<and>
   (2, 7) \<notin> running ` {s. reach (\<lambda>s. tables_wf ex_vars init_tables \<and> serve_init ex_vars False 1 init_tables s)
     (serve_step ex_vars) s}"
  unfolding reachable_loads [OF init_tables_wf] by simp

text \<open>
  C34. The \<open>collect[]\<close> parameters do not filter: in every reachable state a request with any of them
  is answered by a scrape of all enabled collectors, on the very structs that requests without a
  filter scrape at the same time, and is never refused; no request panics.
\<close>

theorem filters_are_ignored:
  assumes "reach (\<lambda>s. tables_wf v t \<and> serve_init v disable maxReq t s) (serve_step v) s"
    and "filters \<noteq> []"
  shows "ServeHTTP v filters s =
      Ok (Scraping (sh_collectors (unfilteredHandler (srv_handler s))), s\<lparr>srv_filtered := srv_filtered s + 1\<rparr>) \<and>
    map fst (sh_collectors (unfilteredHandler (srv_handler s))) = enabled_names t \<and>
    ServeHTTP v [] s =
      (if 0 < sint maxReq \<and> sint maxReq \<le> int (srv_running s) then Ok (ServiceUnavailable, s)
       else Ok (Scraping (sh_collectors (unfilteredHandler (srv_handler s))),
                s\<lparr>srv_running := srv_running s + 1\<rparr>))"
proof -
  note inv = serving.reach_inv [OF assms(1)]
  have "map fst (sh_collectors (unfilteredHandler (srv_handler s))) = enabled_names t"
    using inv by (simp add: serve_inv_def)
  then show ?thesis using ServeHTTP_filtered [OF inv assms(2)] ServeHTTP_unfiltered [OF inv] by (intro conjI)
qed

theorem filters_are_ignored_witness:
  "\<exists>s cs s'. ServeHTTP ex_vars [''image''] s = Ok (Scraping cs, s') \<and> map fst cs = [''container''] \<and>
     ServeHTTP ex_vars [] s = Ok (Scraping cs, s\<lparr>srv_running := 1\<rparr>)"
proof -
  have wf: "tables_wf ex_vars init_tables" by (rule init_tables_wf)
  obtain s where s: "serve_init ex_vars False 1 init_tables s"
    using newHandler_ok [OF wf, of False 1] by (auto simp: serve_init_def)
  then have "reach (\<lambda>s. tables_wf ex_vars init_tables \<and> serve_init ex_vars False 1 init_tables s)
      (serve_step ex_vars) s"
    using wf by (intro reach_init) simp
  moreover have "srv_running s = 0" using s by (auto simp: serve_init_def)
  moreover have "enabled_names init_tables = [''container'']" by code_simp
  ultimately have
    "ServeHTTP ex_vars [''image''] s = Ok (Scraping (sh_collectors (unfilteredHandler (srv_handler s))),
       s\<lparr>srv_filtered := srv_filtered s + 1\<rparr>)"
    "map fst (sh_collectors (unfilteredHandler (srv_handler s))) = [''container'']"
    "ServeHTTP ex_vars [] s = Ok (Scraping (sh_collectors (unfilteredHandler (srv_handler s))),
       s\<lparr>srv_running := 1\<rparr>)"
    using filters_are_ignored [of ex_vars init_tables False 1 s "[''image'']"] by simp_all
  then show ?thesis
    by (intro exI [of _ s] exI [of _ "sh_collectors (unfilteredHandler (srv_handler s))"]
        exI [of _ "s\<lparr>srv_filtered := srv_filtered s + 1\<rparr>"] conjI)
qed



section \<open>Scrapes at the registry\<close>



text \<open>
  C37. The main guarantee of the exporter: after a successful start, a scrape whose objects are told
  apart (containers and pods by identifier, networks and volumes by name, images by the labels of
  their entries) is gathered without an error, and the registry keeps every metric of it, in one
  family for each name; \<open>hash\<close> is the registry's hash, which must tell the series of the scrape apart.
\<close>

theorem started_scrape_is_clean:
  assumes "parseOptions fs = Inr opts"
    and "ex_listening (snd (Start env fs initial_state))"
    and "ex_handler (snd (Start env fs initial_state)) = Some h"
    and "Collect (label_options opts) a ds (sh_collectors (unfilteredHandler h)) (Collected cs' ms)"
    and "answers_distinct (label_options opts) a" and "inj_on hash (metric_key ` set ms)"
  shows "gather_errs (Gather hash ms) = [] \<and>
    (\<forall>n. families (Gather hash ms) n =
      (case filter (\<lambda>m. metric_name m = n) ms of
         [] \<Rightarrow> None
       | m0 # _ \<Rightarrow> Some \<lparr>fam_help = desc_help (metric_desc m0), fam_type = metric_type m0,
                          fam_metrics = filter (\<lambda>m. metric_name m = n) ms\<rparr>))"
proof -
  let ?cs = "sh_collectors (unfilteredHandler h)"
  have "handler_for opts h" using started_handler [OF assms(1-3)] ..
  then have built: "collectors_built (label_options opts) ?cs"
    and names: "map fst ?cs = filter (wanted opts) collector_names"
    by (simp_all add: handler_for_def)
  have "distinct (map fst ?cs)" unfolding names by (simp add: collector_names_def)
  moreover have "\<forall>(n, c) \<in> set ?cs. collector_kind c = n \<and> descs_set c \<and>
      objects_distinct (label_options opts) a c"
    using Start_handler_named [OF assms(1,3)] answers_distinct_objects [OF assms(5)]
    by (auto simp: well_named_def)
  ultimately show ?thesis using scrape_gathered [OF built _ _ assms(4,6)] by blast
qed

theorem started_scrape_is_clean_witness:
  "\<exists>h cs' ms hash. ex_handler (snd (Start ex_environment default_flags initial_state)) = Some h \<and>
     Collect (label_options ex_options) ex_answers [5] (sh_collectors (unfilteredHandler h))
       (Collected cs' ms) \<and> gather_errs (Gather hash ms) = []"
proof -
  obtain h cs' ms where h: "ex_handler (snd (Start ex_environment default_flags initial_state)) = Some h"
    "Collect (label_options ex_options) ex_answers [5] (sh_collectors (unfilteredHandler h)) (Collected cs' ms)"
    and listening: "ex_listening (snd (Start ex_environment default_flags initial_state))"
    and few: "length ms \<le> 1000"
    using ex_scrape by blast
  obtain hash :: "string \<Rightarrow> uint64" where "inj_on hash (metric_key ` set ms)"
    using metrics_have_hash [of ms] few by auto
  moreover have "answers_distinct (label_options ex_options) ex_answers" by code_simp
  ultimately have "gather_errs (Gather hash ms) = []"
    using started_scrape_is_clean [OF ex_options listening h] by blast
  then show ?thesis using h by blast
qed



text \<open>
  C39. The collectors with fixed descriptors: an update of networks or volumes panics exactly when a
  label value of some object is not UTF-8 and sends the samples of every object otherwise; the
  system and disk usage collectors send their four and six samples. No update changes the struct.
\<close>

theorem static_updates_correct:
  "(if list_all network_ok nets
    then \<exists>ms. run_update NewNetworkStatsCollector (networkCollector_Update (Inr nets)) =
           (NewNetworkStatsCollector, ms, Ok None) \<and> map sample ms = concat (map network_samples nets)
    else \<exists>ms p. run_update NewNetworkStatsCollector (networkCollector_Update (Inr nets)) =
           (NewNetworkStatsCollector, ms, Panic p)) \<and>
   (if list_all volume_ok vols
    then \<exists>ms. run_update (NewVolumeStatsCollector v) (volumeCollector_Update v (Inr vols)) =
           (NewVolumeStatsCollector v, ms, Ok None) \<and> map sample ms = concat (map (volume_samples v) vols)
    else \<exists>ms p. run_update (NewVolumeStatsCollector v) (volumeCollector_Update v (Inr vols)) =
           (NewVolumeStatsCollector v, ms, Panic p)) \<and>
   (if system_ok info
    then \<exists>ms. run_update NewSystemCollector (systemCollector_Update (Ok info)) =
           (NewSystemCollector, ms, Ok None) \<and> map sample ms = system_samples info
    else \<exists>ms p. run_update NewSystemCollector (systemCollector_Update (Ok info)) =
           (NewSystemCollector, ms, Panic p)) \<and>
   (\<exists>ms. run_update NewDiskUsageCollector (diskUsageCollector_Update (Inr du)) =
           (NewDiskUsageCollector, ms, Ok None) \<and> map sample ms = disk_usage_samples du)"
  using network_scrape.run_correct [of nets] volume_scrape.run_correct [of vols v]
    system_scrape.run_correct [of "[info]"] disk_usage_scrape.run_correct [of "[du]"]
  by (simp add: networkCollector_Update_def volumeCollector_Update_def systemCollector_Update_def
      diskUsageCollector_Update_def cong: if_cong)

text \<open>
  C40. The answer to a request, as a function of what the engine reported: whatever the interleaving
  of the goroutines, the iterations over Go maps and the order \<open>sort.Sort\<close> leaves equal elements in,
  the request for a scrape of a started exporter whose objects are told apart is answered without an
  error, with the families of its samples, of the build information \<open>b\<close> and of the exporter's own
  metrics, in the order of their names, the metrics of each in the order of their label values,
  restricted to the names the request asks for. When labels of objects are copied, this needs that
  samples with the same values have the same label names. The own metrics are any counters, gauges
  and untyped ones with names of their own.
\<close>

theorem scrape_response_is_exposition:
  assumes "parseOptions fs = Inr opts"
    and "ex_listening (snd (Start env fs initial_state))"
    and "ex_handler (snd (Start env fs initial_state)) = Some h"
    and "Collect (label_options opts) a ds (sh_collectors (unfilteredHandler h)) (Collected cs' ms)"
    and "answers_distinct (label_options opts) a"
    and "plain_labels (label_options opts) \<or>
      values_apart (expected_samples (label_options opts) a ds (sh_collectors (unfilteredHandler h)))"
    and "own_metrics own" and "metric_sound b" and "metric_name b = build_info_name"
    and "merges [[b], ms] received" and "inj_on hash (metric_key ` set (own @ received))"
  shows "(\<exists>ans. answers hash own received names ans) \<and>
    (\<forall>ans. answers hash own received names ans \<longrightarrow>
      (\<exists>mfs. ans = Families mfs \<and> map wire mfs =
        filter (\<lambda>f. names = [] \<or> fst f \<in> set names)
          (exposition (response_help (own @ [b]))
            (map sample (own @ [b]) @
             expected_samples (label_options opts) a ds (sh_collectors (unfilteredHandler h))))))"
proof -
  let ?cs = "sh_collectors (unfilteredHandler h)"
  have "handler_for opts h" using started_handler [OF assms(1-3)] ..
  then have built: "collectors_built (label_options opts) ?cs"
    and names: "map fst ?cs = filter (wanted opts) collector_names"
    by (simp_all add: handler_for_def)
  have distinct: "distinct (map fst ?cs)" unfolding names by (simp add: collector_names_def)
  have named: "\<forall>(n, c) \<in> set ?cs. collector_kind c = n \<and> descs_set c \<and>
      objects_distinct (label_options opts) a c"
    using Start_handler_named [OF assms(1,3)] answers_distinct_objects [OF assms(5)]
    by (auto simp: well_named_def)
  have "values_apart (expected_samples (label_options opts) a ds ?cs)"
    using assms(6) plain_expected Collected_ok(2) [OF built assms(4)] by blast
  note scrape = built distinct named assms(4) this assms(7-10)
  show ?thesis
    using scrape_response [OF scrape assms(11)] received_clean [OF scrape] answered [OF _ _ _ assms(11)]
    by blast
qed

theorem scrape_response_is_exposition_witness:
  "\<exists>h b own hash received mfs cs' ms. ex_handler (snd (Start ex_environment default_flags initial_state)) = Some h \<and>
     Collect (label_options ex_options) ex_answers [5] (sh_collectors (unfilteredHandler h))
       (Collected cs' ms) \<and> merges [[b], ms] received \<and> length own = 1 \<and>
     answers hash own received [] (Families mfs) \<and>
     map wire mfs = exposition (response_help (own @ [b]))
       (map sample (own @ [b]) @
        expected_samples (label_options ex_options) ex_answers [5] (sh_collectors (unfilteredHandler h)))"
proof -
  obtain h cs' ms where h: "ex_handler (snd (Start ex_environment default_flags initial_state)) = Some h"
    "Collect (label_options ex_options) ex_answers [5] (sh_collectors (unfilteredHandler h)) (Collected cs' ms)"
    and listening: "ex_listening (snd (Start ex_environment default_flags initial_state))"
    and few: "length ms \<le> 1000"
    using ex_scrape by blast
  let ?b = "const_metric (NewDesc build_info_name ''build'' [''version'']) GaugeValue 1 [''2'']"
  let ?own = "[const_metric (NewDesc ''promhttp_metric_handler_errors_total'' ''errors'' [''cause''])
    CounterValue 0 [''gathering'']]"
  let ?received = "concat [[?b], ms]"
  have "length (?own @ ?received) \<le> 2000" using few by simp
  then obtain hash :: "string \<Rightarrow> uint64" where hash: "inj_on hash (metric_key ` set (?own @ ?received))"
    using metrics_have_hash by blast
  have b: "metric_sound ?b" "metric_name ?b = build_info_name" by code_simp+
  have "metric_sound (hd ?own)" by code_simp
  then have "clean ?own" using clean_single by simp
  moreover have "list_all (\<lambda>m. metric_name m \<noteq> build_info_name \<and> metric_name m \<notin> fst ` set metric_table) ?own"
    by code_simp
  ultimately have own: "own_metrics ?own" by (simp add: own_metrics_def)
  have ok: "plain_labels (label_options ex_options)" "answers_distinct (label_options ex_options) ex_answers"
    by code_simp+
  from scrape_response_is_exposition
    [OF ex_options listening h ok(2) disjI1 [OF ok(1)] own b merges_concat hash, of "[]"]
  obtain mfs where "answers hash ?own ?received [] (Families mfs)"
    "map wire mfs = exposition (response_help (?own @ [?b])) (map sample (?own @ [?b]) @
       expected_samples (label_options ex_options) ex_answers [5] (sh_collectors (unfilteredHandler h)))"
    by auto
  with h merges_concat [of "[[?b], ms]"] show ?thesis
    by (intro exI [of _ h] exI [of _ ?b] exI [of _ ?own] exI [of _ hash] exI [of _ ?received]
        exI [of _ mfs] exI [of _ cs'] exI [of _ ms]) simp
qed

end
